theory Spec2Isabelle
  imports Main "HOL-Library.Signed_Division" "HOL-Library.Sublist"
begin

section \<open>Ring buffer (src/src/daemon.ts, class RingBuffer)\<close>

text \<open>
  The class keeps a JavaScript array of \<open>capacity\<close> slots, a write cursor \<open>head\<close> and
  the number \<open>count\<close> of slots in use. A slot that was never written reads as
  \<open>undefined\<close>, which is \<open>None\<close> here; a stored item \<open>x\<close> is \<open>Some x\<close>.
  Index arithmetic is done on \<open>int\<close>, with the truncating remainder \<open>smod\<close> for the
  \<open>%\<close> of JavaScript. The model covers \<open>capacity \<ge> 1\<close>: for capacity 0 the remainder
  is NaN in JavaScript, which is not represented.
\<close>

record 'a RingBuffer =
  items :: "'a option list"
  head :: int
  count :: int
  capacity :: int

text \<open>Reading \<open>arr[i]\<close>: \<open>undefined\<close> outside the array.\<close>

definition js_get :: "'a option list \<Rightarrow> int \<Rightarrow> 'a option" where
  "js_get xs i = (if 0 \<le> i \<and> i < int (length xs) then xs ! nat i else None)"

text \<open>
  Writing \<open>arr[i] = v\<close> for an index \<open>i \<ge> 0\<close>, which \<open>head\<close> always is: an index past the
  end extends the array with holes.
\<close>

definition js_set :: "'a option list \<Rightarrow> int \<Rightarrow> 'a option \<Rightarrow> 'a option list" where
  "js_set xs i v =
     (if i < int (length xs) then xs[nat i := v]
      else xs @ replicate (nat i - length xs) None @ [v])"

text \<open>\<open>constructor(capacity)\<close>: \<open>new Array(capacity)\<close>, \<open>head = 0\<close>, \<open>count = 0\<close>.\<close>

definition new_RingBuffer :: "nat \<Rightarrow> 'a RingBuffer" where
  "new_RingBuffer c = \<lparr>items = replicate c None, head = 0, count = 0, capacity = int c\<rparr>"

definition push :: "'a \<Rightarrow> 'a RingBuffer \<Rightarrow> 'a RingBuffer" where
  "push item rb =
     \<lparr>items = js_set (items rb) (head rb) (Some item),
      head = (head rb + 1) smod capacity rb,
      count = (if count rb < capacity rb then count rb + 1 else count rb),
      capacity = capacity rb\<rparr>"

definition clear :: "'a RingBuffer \<Rightarrow> 'a RingBuffer" where
  "clear rb =
     \<lparr>items = replicate (nat (capacity rb)) None, head = 0, count = 0, capacity = capacity rb\<rparr>"

definition size_rb :: "'a RingBuffer \<Rightarrow> int" where
  "size_rb rb = count rb"

text \<open>\<open>!filter || filter(item)\<close>: an absent filter accepts every item.\<close>

definition passes :: "('a option \<Rightarrow> bool) option \<Rightarrow> 'a option \<Rightarrow> bool" where
  "passes flt item = (case flt of None \<Rightarrow> True | Some f \<Rightarrow> f item)"

text \<open>The \<open>for\<close> loop of \<open>query\<close>, from index \<open>i\<close> on, with the result array so far.\<close>

function query_loop ::
  "('a option \<Rightarrow> bool) option \<Rightarrow> 'a RingBuffer \<Rightarrow> int \<Rightarrow> int \<Rightarrow> 'a option list \<Rightarrow> 'a option list"
where
  "query_loop flt rb start i result =
     (if i < count rb then
        (let item = js_get (items rb) ((start + i) smod capacity rb)
         in query_loop flt rb start (i + 1) (if passes flt item then result @ [item] else result))
      else result)"
  by pat_completeness auto
termination
  by (relation "measure (\<lambda>(flt, rb, start, i, result). nat (count rb - i))") auto

declare query_loop.simps [simp del]

text \<open>
  \<open>result.slice(-limit)\<close> for an integer \<open>limit > 0\<close>: the last \<open>limit\<close> elements, all of
  them when there are fewer.
\<close>

definition slice_last :: "int \<Rightarrow> 'b list \<Rightarrow> 'b list" where
  "slice_last limit xs = drop (nat (max (int (length xs) - limit) 0)) xs"

text \<open>
  \<open>query(filter?, limit?)\<close>. The handlers pass \<open>undefined\<close> or the result of \<open>parseInt\<close> as
  the limit, so it is an integer or NaN. The limit is \<open>None\<close> when it is \<open>undefined\<close> or NaN;
  both are falsy, as is 0.
\<close>

definition query ::
  "('a option \<Rightarrow> bool) option \<Rightarrow> int option \<Rightarrow> 'a RingBuffer \<Rightarrow> 'a option list"
where
  "query flt limit rb =
     (let start = (head rb - count rb + capacity rb) smod capacity rb;
          result = query_loop flt rb start 0 []
      in case limit of
           None \<Rightarrow> result
         | Some l \<Rightarrow> if l \<noteq> 0 \<and> l > 0 then slice_last l result else result)"

text \<open>Pushing a sequence of items, first to last.\<close>

definition push_all :: "'a list \<Rightarrow> 'a RingBuffer \<Rightarrow> 'a RingBuffer" where
  "push_all xs rb = fold push xs rb"

text \<open>Auxiliary notions for the proofs: the read offset of \<open>query\<close>, the slots it visits, and
  the representation invariant of the class.\<close>

definition start_of :: "'a RingBuffer \<Rightarrow> int" where
  "start_of rb = (head rb - count rb + capacity rb) smod capacity rb"

definition held :: "'a RingBuffer \<Rightarrow> 'a option list" where
  "held rb = map (\<lambda>j. js_get (items rb) ((start_of rb + int j) smod capacity rb)) [0..<nat (count rb)]"

definition rb_inv :: "'a RingBuffer \<Rightarrow> bool" where
  "rb_inv rb \<longleftrightarrow>
     0 < capacity rb \<and> int (length (items rb)) = capacity rb \<and>
     0 \<le> head rb \<and> head rb < capacity rb \<and>
     0 \<le> count rb \<and> count rb \<le> capacity rb \<and>
     (count rb < capacity rb \<longrightarrow> head rb = count rb)"

section \<open>Buffered events (src/src/daemon.ts, the handlers of connectCDP)\<close>

text \<open>
  An event is an object tagged by \<open>type\<close>: \<open>console\<close>, \<open>exception\<close>, \<open>request\<close>,
  \<open>response\<close>, \<open>network_error\<close> or \<open>screenshot\<close> (the union \<open>ExtEvent\<close>; the daemon's
  handlers never store a screenshot event), with the fields of its interface. Every event
  also has a timestamp \<open>ts\<close> (an ISO-8601 string), a \<open>source\<close> and a \<open>label\<close>, which every
  handler sets to \<open>null\<close> and which is left out. The console level is the string the
  browser reports (\<open>warning\<close> renamed to \<open>warn\<close>), so it is a string here. Strings are
  lists of 8-bit characters: the model covers code units below 256.
\<close>

datatype event_source = SrcPage | SrcExtension | SrcUnknown

datatype event_body =
    Console string string
  | Exception string
  | Request string string
  | Response int string
  | NetworkError string string string
  | Screenshot string

record BufferedEvent =
  body :: event_body
  ts :: string
  source :: event_source

text \<open>The \<open>type\<close> tag and the optional fields; \<open>None\<close> is a field the object does not have.\<close>

fun type_of :: "BufferedEvent \<Rightarrow> string" where
  "type_of e = (case body e of
      Console lv tx \<Rightarrow> ''console''
    | Exception tx \<Rightarrow> ''exception''
    | Request m u \<Rightarrow> ''request''
    | Response st u \<Rightarrow> ''response''
    | NetworkError er rt u \<Rightarrow> ''network_error''
    | Screenshot p \<Rightarrow> ''screenshot'')"

fun level_of :: "BufferedEvent \<Rightarrow> string option" where
  "level_of e = (case body e of Console lv tx \<Rightarrow> Some lv | _ \<Rightarrow> None)"


fun status_of :: "BufferedEvent \<Rightarrow> int option" where
  "status_of e = (case body e of Response st u \<Rightarrow> Some st | _ \<Rightarrow> None)"

text \<open>\<open>e.status >= 400\<close>, read only after the tag was found to be \<open>response\<close>.\<close>

definition status_ge :: "BufferedEvent \<Rightarrow> int \<Rightarrow> bool" where
  "status_ge e n = (case status_of e of Some st \<Rightarrow> st \<ge> n | None \<Rightarrow> False)"

subsection \<open>String primitives of JavaScript\<close>



text \<open>Decimal rendering of a non-negative integer, as string concatenation does it.\<close>

definition digit_char :: "nat \<Rightarrow> char" where
  "digit_char d = char_of (48 + d)"

function string_of_nat :: "nat \<Rightarrow> string" where
  "string_of_nat n =
     (if n < 10 then [digit_char n] else string_of_nat (n div 10) @ [digit_char (n mod 10)])"
  by pat_completeness auto
termination
  by (relation "measure id") auto

declare string_of_nat.simps [simp del]













subsection \<open>Error classification: the filters of GET /errors, GET /errors/summary, GET /inspect\<close>

text \<open>The three handlers each spell the predicate out; all three are transcribed.\<close>

definition errors_filter :: "BufferedEvent \<Rightarrow> bool" where
  "errors_filter e =
     (type_of e = ''exception'' \<or>
      type_of e = ''network_error'' \<or>
      (type_of e = ''console'' \<and> level_of e = Some ''error'') \<or>
      (type_of e = ''response'' \<and> status_ge e 400))"

definition summary_filter :: "BufferedEvent \<Rightarrow> bool" where
  "summary_filter e =
     (type_of e = ''exception'' \<or>
      type_of e = ''network_error'' \<or>
      (type_of e = ''console'' \<and> level_of e = Some ''error'') \<or>
      (type_of e = ''response'' \<and> status_ge e 400))"

definition inspect_filter :: "BufferedEvent \<Rightarrow> bool" where
  "inspect_filter e =
     (type_of e = ''exception'' \<or>
      type_of e = ''network_error'' \<or>
      (type_of e = ''console'' \<and> level_of e = Some ''error'') \<or>
      (type_of e = ''response'' \<and> status_ge e 400))"

subsection \<open>Status filter of GET /network\<close>





subsection \<open>Frequency annotation (addFrequency)\<close>










text \<open>
  The error classification in the words of the specification: an exception, a network
  error, a console event of level \<open>error\<close>, or a response with status 400 or more.
\<close>

definition is_error_event :: "BufferedEvent \<Rightarrow> bool" where
  "is_error_event e =
     (case body e of
        Exception tx \<Rightarrow> True
      | NetworkError er rt u \<Rightarrow> True
      | Console lv tx \<Rightarrow> lv = ''error''
      | Response st u \<Rightarrow> st \<ge> 400
      | Request m u \<Rightarrow> False
      | Screenshot p \<Rightarrow> False)"

section \<open>Reference table (src/src/daemon.ts: GET /snapshot, POST /click, POST /fill)\<close>

text \<open>
  \<open>SnapshotRef\<close> of src/src/snapshot.ts. The fields \<open>text\<close> and \<open>type\<close> are named
  \<open>elem_text\<close> and \<open>elem_type\<close> here; an optional field is an \<open>option\<close>.
\<close>

record SnapshotRef =
  ref :: int
  tag :: string
  role :: "string option"
  elem_text :: string
  selector :: string
  elem_type :: "string option"
  name :: "string option"
  href :: "string option"
  disabled :: "bool option"

text \<open>
  The part of \<open>DaemonState\<close> that the handlers and the connection code read and write:
  whether a client object is held (\<open>client\<close> is not \<open>null\<close>), the flags \<open>connected\<close> and
  \<open>reconnecting\<close>, and \<open>refMap\<close>.
\<close>

record DaemonState =
  has_client :: bool
  connected :: bool
  reconnecting :: bool
  refMap :: "int \<rightharpoonup> SnapshotRef"

text \<open>
  The state that \<open>startDaemon\<close> builds: \<open>client: null\<close>, \<open>connected: false\<close>,
  \<open>reconnecting: false\<close>, \<open>refMap: new Map()\<close>.
\<close>

definition initial_state :: DaemonState where
  "initial_state =
     \<lparr>has_client = False, connected = False, reconnecting = False, refMap = Map.empty\<rparr>"

text \<open>\<open>for (const el of snapshot.interactiveElements) state.refMap.set(el.ref, el)\<close>.\<close>

fun set_refs :: "SnapshotRef list \<Rightarrow> (int \<rightharpoonup> SnapshotRef) \<Rightarrow> (int \<rightharpoonup> SnapshotRef)" where
  "set_refs [] m = m"
| "set_refs (el # els) m = set_refs els (m(ref el \<mapsto> el))"

text \<open>
  What the page evaluation of a snapshot gives back: exception details, no value at all, or
  a value with its list \<open>interactiveElements\<close>.
\<close>

datatype snapshot_eval = SnapshotThrew | SnapshotNoValue | SnapshotValue "SnapshotRef list"

text \<open>
  The handler of GET /snapshot, as far as the state goes (GET /inspect and the helper
  \<open>runInspect\<close> have the same three lines): nothing changes when the daemon is not connected
  or the evaluation reported an exception; otherwise \<open>refMap.clear()\<close> and the loop above.
  Without a value the loop throws on \<open>snapshot.interactiveElements\<close>, after the table was
  cleared.
\<close>

definition snapshot_handler :: "snapshot_eval \<Rightarrow> DaemonState \<Rightarrow> DaemonState" where
  "snapshot_handler r st =
     (if \<not> has_client st \<or> \<not> connected st then st
      else case r of
             SnapshotThrew \<Rightarrow> st
           | SnapshotNoValue \<Rightarrow> st\<lparr>refMap := Map.empty\<rparr>
           | SnapshotValue els \<Rightarrow> st\<lparr>refMap := set_refs els Map.empty\<rparr>)"

text \<open>
  The body of a click or fill request. \<open>Number(body.ref)\<close> is a number or NaN; a property
  that is absent is \<open>undefined\<close>. An empty selector string is falsy, as an absent one.
\<close>

datatype ref_arg = RefUndefined | RefNumber int | RefNaN

record interact_body =
  body_ref :: ref_arg
  body_selector :: "string option"
  body_value :: "string option"

text \<open>
  How a handler ends before or at the page action: an error response with its status code,
  or the evaluation of the click or fill expression on a selector.
\<close>

datatype handler_error = NotConnected | RefNotFound | RefOrSelectorRequired | ValueRequired

datatype interact_outcome =
    ErrorResponse nat handler_error
  | EvaluateClick string
  | EvaluateFill string string

text \<open>\<open>state.refMap.get(Number(body.ref))\<close>: NaN is no key of the table.\<close>

definition refMap_get :: "DaemonState \<Rightarrow> ref_arg \<Rightarrow> SnapshotRef option" where
  "refMap_get st r = (case r of RefNumber n \<Rightarrow> refMap st n | _ \<Rightarrow> None)"

definition click_handler :: "interact_body \<Rightarrow> DaemonState \<Rightarrow> interact_outcome" where
  "click_handler b st =
     (if \<not> has_client st \<or> \<not> connected st then ErrorResponse 500 NotConnected
      else if body_ref b \<noteq> RefUndefined then
        (case refMap_get st (body_ref b) of
           None \<Rightarrow> ErrorResponse 400 RefNotFound
         | Some refEntry \<Rightarrow> EvaluateClick (selector refEntry))
      else (case body_selector b of
              None \<Rightarrow> ErrorResponse 400 RefOrSelectorRequired
            | Some s \<Rightarrow> if s = [] then ErrorResponse 400 RefOrSelectorRequired
                        else EvaluateClick s))"

definition fill_handler :: "interact_body \<Rightarrow> DaemonState \<Rightarrow> interact_outcome" where
  "fill_handler b st =
     (if \<not> has_client st \<or> \<not> connected st then ErrorResponse 500 NotConnected
      else if body_ref b \<noteq> RefUndefined then
        (case refMap_get st (body_ref b) of
           None \<Rightarrow> ErrorResponse 400 RefNotFound
         | Some refEntry \<Rightarrow>
             (case body_value b of
                None \<Rightarrow> ErrorResponse 400 ValueRequired
              | Some v \<Rightarrow> EvaluateFill (selector refEntry) v))
      else (case body_selector b of
              None \<Rightarrow> ErrorResponse 400 RefOrSelectorRequired
            | Some s \<Rightarrow> if s = [] then ErrorResponse 400 RefOrSelectorRequired
                        else (case body_value b of
                                None \<Rightarrow> ErrorResponse 400 ValueRequired
                              | Some v \<Rightarrow> EvaluateFill s v)))"

text \<open>A history of snapshot requests, oldest first, run from a state.\<close>

definition run_snapshots :: "snapshot_eval list \<Rightarrow> DaemonState \<Rightarrow> DaemonState" where
  "run_snapshots rs st = fold snapshot_handler rs st"

text \<open>
  Resolving a ref, as both handlers do: the selector of the table entry, or the error. This
  is the path of a click request that carries only a ref.
\<close>

definition resolve :: "int \<Rightarrow> DaemonState \<Rightarrow> handler_error + string" where
  "resolve r st =
     (case click_handler \<lparr>body_ref = RefNumber r, body_selector = None, body_value = None\<rparr> st of
        ErrorResponse code err \<Rightarrow> Inl err
      | EvaluateClick s \<Rightarrow> Inr s
      | EvaluateFill s v \<Rightarrow> Inr s)"

text \<open>An entry for a button with a given ref and selector, for the examples.\<close>

definition example_ref :: "int \<Rightarrow> string \<Rightarrow> SnapshotRef" where
  "example_ref r s =
     \<lparr>ref = r, tag = ''button'', role = None, elem_text = ''Go'', selector = s,
      elem_type = None, name = None, href = None, disabled = None\<rparr>"

section \<open>Snapshot capacity and ref numbering (src/src/snapshot.ts, buildSnapshotExpression)\<close>

text \<open>
  A candidate is an element with the shadow host it was found under, if any. The list
  \<open>allCandidates\<close> arrives sorted. The description of an element (tag, role, text, selector
  and the rest) is the parameter \<open>describe\<close>; the loop sets the \<open>ref\<close> field itself.
\<close>

definition mainCandidates :: "('e \<times> 'h option) list \<Rightarrow> ('e \<times> 'h option) list" where
  "mainCandidates allCandidates = filter (\<lambda>c. snd c = None) allCandidates"

definition shadowCandidates :: "('e \<times> 'h option) list \<Rightarrow> ('e \<times> 'h option) list" where
  "shadowCandidates allCandidates = filter (\<lambda>c. snd c \<noteq> None) allCandidates"

definition finalCandidates :: "('e \<times> 'h option) list \<Rightarrow> ('e \<times> 'h option) list" where
  "finalCandidates allCandidates =
     (let mainLimit = (if length (shadowCandidates allCandidates) > 0 then 50 else 75);
          shadowLimit = 25
      in take mainLimit (mainCandidates allCandidates)
         @ take shadowLimit (shadowCandidates allCandidates))"

text \<open>
  The loop over \<open>finalCandidates\<close>: push the element with \<open>ref: ref++\<close>, then
  \<open>if (ref > 75) break\<close>.
\<close>

fun emit_loop ::
  "(('e \<times> 'h option) \<Rightarrow> SnapshotRef) \<Rightarrow> ('e \<times> 'h option) list \<Rightarrow> int \<Rightarrow> SnapshotRef list
     \<Rightarrow> SnapshotRef list"
where
  "emit_loop describe [] r elements = elements"
| "emit_loop describe (c # cs) r elements =
     (let elements' = elements @ [(describe c)\<lparr>ref := r\<rparr>];
          r' = r + 1
      in if r' > 75 then elements' else emit_loop describe cs r' elements')"

definition interactiveElements ::
  "(('e \<times> 'h option) \<Rightarrow> SnapshotRef) \<Rightarrow> ('e \<times> 'h option) list \<Rightarrow> SnapshotRef list"
where
  "interactiveElements describe allCandidates =
     emit_loop describe (finalCandidates allCandidates) 1 []"

text \<open>A list of candidates described and numbered from \<open>r\<close> on, in order.\<close>

fun numbered ::
  "(('e \<times> 'h option) \<Rightarrow> SnapshotRef) \<Rightarrow> int \<Rightarrow> ('e \<times> 'h option) list \<Rightarrow> SnapshotRef list"
where
  "numbered describe r [] = []"
| "numbered describe r (c # cs) = (describe c)\<lparr>ref := r\<rparr> # numbered describe (r + 1) cs"


text \<open>
  Examples. Ninety candidates in document order, the middle thirty under a shadow host, and
  eighty candidates of the main document; a description that records where the candidate
  was found.
\<close>

definition example_candidates :: "(nat \<times> nat option) list" where
  "example_candidates =
     map (\<lambda>i. (i, None)) [0..<30] @ map (\<lambda>i. (i, Some 0)) [30..<60]
       @ map (\<lambda>i. (i, None)) [60..<90]"

definition example_main_only :: "(nat \<times> nat option) list" where
  "example_main_only = map (\<lambda>i. (i, None)) [0..<80]"

definition example_describe :: "(nat \<times> nat option) \<Rightarrow> SnapshotRef" where
  "example_describe c =
     example_ref 0 (case snd c of None \<Rightarrow> ''button'' | Some h \<Rightarrow> ''#host>>>button'')"
section \<open>Connection and reconnection (src/src/daemon.ts: connectCDP, scheduleReconnect, startDaemon)\<close>

text \<open>
  \<open>connectCDP\<close> is asynchronous and can end in three ways. It can throw before it touches
  the state (no matching tab, or the session cannot be opened). It can throw after the
  session was opened and the state was set, when \<open>Runtime.enable\<close> or \<open>Network.enable\<close>
  fails. Or it returns, and then the \<open>disconnect\<close> handler of the new session is
  registered, which is its last statement.
\<close>

datatype connect_outcome = FailedBeforeSession | FailedAfterSession | Connected

text \<open>
  The writes of \<open>connectCDP\<close> to the state: \<open>client\<close>, \<open>connected = true\<close>,
  \<open>reconnecting = false\<close>, once the session is open.
\<close>

definition connectCDP :: "connect_outcome \<Rightarrow> DaemonState \<Rightarrow> DaemonState" where
  "connectCDP outcome st =
     (case outcome of
        FailedBeforeSession \<Rightarrow> st
      | _ \<Rightarrow> st\<lparr>has_client := True, connected := True, reconnecting := False\<rparr>)"

text \<open>
  Each call of \<open>scheduleReconnect\<close> that passes the guard creates one reconnection loop: a
  closure with its own variable \<open>delay\<close> and a pending timer. A loop is waiting for its
  timer or running an attempt. The world holds the daemon state, the loops in flight, the
  number of sessions whose \<open>disconnect\<close> handler is registered and has not run yet, the
  delays given to \<open>setTimeout\<close> so far in order, and whether \<open>startDaemon\<close> has made its
  first connection attempt.
\<close>

datatype loop_phase = Waiting | Attempting

record World =
  daemon :: DaemonState
  loops :: "(loop_phase \<times> nat) list"
  live :: nat
  scheduled :: "nat list"
  booted :: bool

definition initial_world :: World where
  "initial_world =
     \<lparr>daemon = initial_state, loops = [], live = 0, scheduled = [], booted = False\<rparr>"

definition maxDelay :: nat where
  "maxDelay = 10000"

text \<open>
  \<open>scheduleReconnect\<close>: return when \<open>reconnecting\<close> is set; otherwise set it, start a loop
  with \<open>delay = 1000\<close> and call \<open>setTimeout(attempt, delay)\<close>.
\<close>

definition scheduleReconnect :: "World \<Rightarrow> World" where
  "scheduleReconnect w =
     (if reconnecting (daemon w) then w
      else w\<lparr>daemon := (daemon w)\<lparr>reconnecting := True\<rparr>,
             loops := loops w @ [(Waiting, 1000)],
             scheduled := scheduled w @ [1000]\<rparr>)"

text \<open>
  The end of \<open>attempt\<close> in loop \<open>k\<close>. When \<open>connectCDP\<close> returned, the loop is over and the
  new session has its handler. When it threw, the \<open>catch\<close> block doubles the delay up to
  \<open>maxDelay\<close> and sets the next timer.
\<close>

definition attempt_ends :: "nat \<Rightarrow> connect_outcome \<Rightarrow> World \<Rightarrow> World" where
  "attempt_ends k outcome w =
     (let w1 = w\<lparr>daemon := connectCDP outcome (daemon w)\<rparr>
      in case outcome of
           Connected \<Rightarrow> w1\<lparr>loops := take k (loops w) @ drop (Suc k) (loops w), live := live w + 1\<rparr>
         | _ \<Rightarrow>
             (let delay = min (snd (loops w ! k) * 2) maxDelay
              in w1\<lparr>loops := (loops w)[k := (Waiting, delay)],
                     scheduled := scheduled w @ [delay]\<rparr>))"

text \<open>The \<open>disconnect\<close> handler of a session: clear the connection, then \<open>scheduleReconnect\<close>.\<close>

definition on_disconnect :: "World \<Rightarrow> World" where
  "on_disconnect w =
     scheduleReconnect
       (w\<lparr>live := live w - 1,
          daemon := (daemon w)\<lparr>connected := False, has_client := False\<rparr>\<rparr>)"

text \<open>
  \<open>startDaemon\<close>: \<open>try { await connectCDP(state) } catch { scheduleReconnect(state) }\<close>.
\<close>

definition boot :: "connect_outcome \<Rightarrow> World \<Rightarrow> World" where
  "boot outcome w =
     (let w1 = w\<lparr>booted := True, daemon := connectCDP outcome (daemon w)\<rparr>
      in case outcome of
           Connected \<Rightarrow> w1\<lparr>live := live w + 1\<rparr>
         | _ \<Rightarrow> scheduleReconnect w1)"

text \<open>
  The events of the single event loop and the step they take; \<open>None\<close> when the event cannot
  happen in the world. A session reports its disconnection once, so \<open>Disconnect\<close> needs a
  session whose handler has not run.
\<close>

datatype event =
    Boot connect_outcome
  | Disconnect
  | TimerFires nat
  | AttemptEnds nat connect_outcome

definition step :: "event \<Rightarrow> World \<Rightarrow> World option" where
  "step e w =
     (case e of
        Boot outcome \<Rightarrow> if booted w then None else Some (boot outcome w)
      | Disconnect \<Rightarrow> if live w > 0 then Some (on_disconnect w) else None
      | TimerFires k \<Rightarrow>
          if k < length (loops w) \<and> fst (loops w ! k) = Waiting
          then Some (w\<lparr>loops := (loops w)[k := (Attempting, snd (loops w ! k))]\<rparr>)
          else None
      | AttemptEnds k outcome \<Rightarrow>
          if k < length (loops w) \<and> fst (loops w ! k) = Attempting
          then Some (attempt_ends k outcome w)
          else None)"

fun run :: "event list \<Rightarrow> World \<Rightarrow> World option" where
  "run [] w = Some w"
| "run (e # es) w = (case step e w of None \<Rightarrow> None | Some w' \<Rightarrow> run es w')"

inductive reachable :: "World \<Rightarrow> bool" where
  reach_start: "reachable initial_world"
| reach_step: "reachable w \<Longrightarrow> step e w = Some w' \<Longrightarrow> reachable w'"

text \<open>The events of consecutive failed attempts of the first loop, one outcome each.\<close>

definition failed_attempts :: "connect_outcome list \<Rightarrow> event list" where
  "failed_attempts outcomes = concat (map (\<lambda>outcome. [TimerFires 0, AttemptEnds 0 outcome]) outcomes)"

text \<open>The delay before the attempt number \<open>i\<close>, counting from 0: 1000 doubled \<open>i\<close> times, capped.\<close>

definition backoff :: "nat \<Rightarrow> nat" where
  "backoff i = min (1000 * 2 ^ i) maxDelay"

text \<open>The invariant of the reachable worlds, for the proofs.\<close>

definition world_inv :: "World \<Rightarrow> bool" where
  "world_inv w \<longleftrightarrow>
     length (loops w) + live w \<le> 1 \<and>
     (live w > 0 \<longrightarrow> \<not> reconnecting (daemon w)) \<and>
     (\<not> booted w \<longrightarrow> loops w = [] \<and> live w = 0 \<and> \<not> reconnecting (daemon w))"

section \<open>Selector synthesis (src/src/snapshot.ts, the loop body of buildSnapshotExpression)\<close>

text \<open>
  The routine runs in the page and reads the DOM. An element is a node with its
  \<open>tagName\<close> (as the browser reports it, upper case in an HTML document), its attributes
  and its child elements. An element is named by the path of child indices that leads to
  it from the root it is queried in: the document, whose root element is
  \<open>document.documentElement\<close>, or the shadow root of a host element. Two paths name the
  same element exactly when they are equal, which is what \<open>===\<close> and \<open>indexOf\<close> compare.
\<close>

datatype dom_el = El (tagName: string) (attributes: "(string \<times> string) list") (children: "dom_el list")

datatype query_root =
    DocumentRoot dom_el
  | ShadowRoot dom_el "dom_el list"

fun subtree :: "dom_el \<Rightarrow> nat list \<Rightarrow> dom_el option" where
  "subtree e [] = Some e"
| "subtree e (i # p) = (if i < length (children e) then subtree (children e ! i) p else None)"

text \<open>The element at a path; the empty path is the root element of a document.\<close>

fun node_at :: "query_root \<Rightarrow> nat list \<Rightarrow> dom_el option" where
  "node_at (DocumentRoot html) p = subtree html p"
| "node_at (ShadowRoot host kids) [] = None"
| "node_at (ShadowRoot host kids) (i # p) = (if i < length kids then subtree (kids ! i) p else None)"

text \<open>\<open>el.getAttribute(name)\<close>: \<open>null\<close> is \<open>None\<close>. A string is truthy when it is not empty.\<close>

definition getAttribute :: "dom_el \<Rightarrow> string \<Rightarrow> string option" where
  "getAttribute e a = map_of (attributes e) a"

definition truthy :: "string option \<Rightarrow> bool" where
  "truthy v = (case v of None \<Rightarrow> False | Some s \<Rightarrow> s \<noteq> [])"

text \<open>\<open>toLowerCase\<close> on 8-bit code units.\<close>

definition lower_char :: "char \<Rightarrow> char" where
  "lower_char c =
     (let n = (of_char c :: nat)
      in if (65 \<le> n \<and> n \<le> 90) \<or> (192 \<le> n \<and> n \<le> 222 \<and> n \<noteq> 215) then char_of (n + 32) else c)"

definition toLowerCase :: "string \<Rightarrow> string" where
  "toLowerCase s = map lower_char s"

text \<open>
  \<open>document.body\<close>: the first child of the root element that is a \<open>body\<close> or a
  \<open>frameset\<close>. The result is its path, if there is one.
\<close>

fun first_index :: "('a \<Rightarrow> bool) \<Rightarrow> 'a list \<Rightarrow> nat option" where
  "first_index P [] = None"
| "first_index P (x # xs) =
     (if P x then Some 0 else (case first_index P xs of None \<Rightarrow> None | Some i \<Rightarrow> Some (Suc i)))"

definition body_path :: "query_root \<Rightarrow> nat list option" where
  "body_path root =
     (case root of
        DocumentRoot html \<Rightarrow>
          (case first_index (\<lambda>c. tagName c = ''BODY'' \<or> tagName c = ''FRAMESET'') (children html) of
             None \<Rightarrow> None
           | Some i \<Rightarrow> Some [i])
      | ShadowRoot host kids \<Rightarrow> None)"

text \<open>
  \<open>cur.parentElement\<close> for the element at the reversed path \<open>i # rest\<close>: the children of
  a shadow root have none.
\<close>

definition parentElement :: "query_root \<Rightarrow> nat list \<Rightarrow> dom_el option" where
  "parentElement root rp =
     (case rp of
        [] \<Rightarrow> None
      | i # rest \<Rightarrow>
          (case root of
             DocumentRoot html \<Rightarrow> node_at root (rev rest)
           | ShadowRoot host kids \<Rightarrow> if rest = [] then None else node_at root (rev rest)))"

text \<open>\<open>parts.join(' > ')\<close>.\<close>

fun js_join :: "string \<Rightarrow> string list \<Rightarrow> string" where
  "js_join sep [] = []"
| "js_join sep [p] = p"
| "js_join sep (p # q # ps) = p @ sep @ js_join sep (q # ps)"

definition nth_of_type :: "string \<Rightarrow> nat \<Rightarrow> string" where
  "nth_of_type t k = t @ '':nth-of-type('' @ string_of_nat k @ '')''"

text \<open>
  The \<open>while\<close> loop of \<open>buildPath\<close>. \<open>cur\<close> is the element at the reversed path, so that
  \<open>cur = parent\<close> drops the head of the list; \<open>parts\<close> is the array so far. The result is
  \<open>parts\<close> with \<open>foundId\<close>. \<open>CSS.escape\<close> is a function of the browser: the parameter
  \<open>esc\<close>.
\<close>

fun buildPath_loop ::
  "(string \<Rightarrow> string) \<Rightarrow> query_root \<Rightarrow> nat list \<Rightarrow> string list \<Rightarrow> string list \<times> bool"
where
  "buildPath_loop esc root [] parts = (parts, False)"
| "buildPath_loop esc root (i # rest) parts =
     (if body_path root = Some (rev (i # rest)) then (parts, False)
      else case node_at root (rev (i # rest)) of
             None \<Rightarrow> (parts, False)
           | Some cur \<Rightarrow>
               (let curTag = toLowerCase (tagName cur);
                    curId = getAttribute cur ''id''
                in if truthy curId then
                     ((''#'' @ esc (case curId of None \<Rightarrow> [] | Some v \<Rightarrow> v)) # parts, True)
                   else case parentElement root (i # rest) of
                          None \<Rightarrow> (curTag # parts, False)
                        | Some parent \<Rightarrow>
                            (let siblings = filter (\<lambda>c. tagName c = tagName cur) (children parent)
                             in if length siblings = 1
                                then buildPath_loop esc root rest (curTag # parts)
                                else
                                  (let idx = length (filter (\<lambda>c. tagName c = tagName cur)
                                                       (take i (children parent))) + 1
                                   in buildPath_loop esc root rest (nth_of_type curTag idx # parts)))))"

definition is_shadow :: "query_root \<Rightarrow> bool" where
  "is_shadow root = (case root of DocumentRoot html \<Rightarrow> False | ShadowRoot host kids \<Rightarrow> True)"

definition buildPath :: "(string \<Rightarrow> string) \<Rightarrow> query_root \<Rightarrow> nat list \<Rightarrow> string" where
  "buildPath esc root p =
     (let (parts, foundId) = buildPath_loop esc root (rev p) [];
          path = js_join '' > '' parts
      in if \<not> foundId \<and> \<not> is_shadow root then ''body > '' @ path else path)"

text \<open>
  \<open>queryRoot.querySelectorAll(s)\<close> is the selector engine of the browser: the parameter
  \<open>qsa\<close> gives the paths of the matching elements in document order, or \<open>None\<close> when the
  call throws on an invalid selector.
\<close>

fun index_of :: "'a \<Rightarrow> 'a list \<Rightarrow> nat option" where
  "index_of x [] = None"
| "index_of x (y # ys) =
     (if x = y then Some 0 else (case index_of x ys of None \<Rightarrow> None | Some i \<Rightarrow> Some (Suc i)))"

text \<open>
  The replacement selector, computed the same way in the \<open>try\<close> block and in the
  \<open>catch\<close> block; \<open>None\<close> when \<open>querySelectorAll(tag)\<close> throws, which nothing catches.
\<close>

definition global_fallback ::
  "(string \<Rightarrow> nat list list option) \<Rightarrow> string \<Rightarrow> nat list \<Rightarrow> string \<Rightarrow> string option"
where
  "global_fallback qsa tg p innerSelector =
     (case qsa tg of
        None \<Rightarrow> None
      | Some allEls \<Rightarrow>
          (case index_of p allEls of
             None \<Rightarrow> Some innerSelector
           | Some globalIdx \<Rightarrow> Some (nth_of_type tg (globalIdx + 1))))"

definition verify_unique ::
  "(string \<Rightarrow> nat list list option) \<Rightarrow> string \<Rightarrow> nat list \<Rightarrow> string \<Rightarrow> string option"
where
  "verify_unique qsa tg p innerSelector =
     (case qsa innerSelector of
        None \<Rightarrow> global_fallback qsa tg p innerSelector
      | Some matches \<Rightarrow>
          if length matches \<noteq> 1 then global_fallback qsa tg p innerSelector
          else Some innerSelector)"

text \<open>\<open>ariaLabel.replace(/"/g, '\\"')\<close> in the page: a backslash before every double quote.\<close>

definition escape_quotes :: "string \<Rightarrow> string" where
  "escape_quotes s = concat (map (\<lambda>c. if c = CHR 0x22 then [CHR 0x5C, CHR 0x22] else [c]) s)"

definition attr_value :: "string option \<Rightarrow> string" where
  "attr_value v = (case v of None \<Rightarrow> [] | Some s \<Rightarrow> s)"

text \<open>
  \<open>innerSelector\<close> of the element at path \<open>p\<close>; \<open>None\<close> when the expression throws.
\<close>

definition innerSelector ::
  "(string \<Rightarrow> string) \<Rightarrow> (string \<Rightarrow> nat list list option) \<Rightarrow> query_root \<Rightarrow> nat list \<Rightarrow> string option"
where
  "innerSelector esc qsa root p =
     (case node_at root p of
        None \<Rightarrow> None
      | Some el \<Rightarrow>
          (let tg = toLowerCase (tagName el);
               nm = getAttribute el ''name'';
               ident = getAttribute el ''id'';
               testId = getAttribute el ''data-testid'';
               ariaLabel = getAttribute el ''aria-label''
           in if truthy ident then Some (''#'' @ esc (attr_value ident))
              else if truthy testId then
                Some (''[data-testid='' @ [CHR 0x22] @ attr_value testId @ [CHR 0x22] @ '']'')
              else if truthy ariaLabel then
                Some (''[aria-label='' @ [CHR 0x22] @ escape_quotes (attr_value ariaLabel)
                        @ [CHR 0x22] @ '']'')
              else if truthy nm \<and> tg = ''input'' then
                Some (tg @ ''[name='' @ [CHR 0x22] @ attr_value nm @ [CHR 0x22] @ '']'')
              else verify_unique qsa tg p (buildPath esc root p)))"








section \<open>Ring buffer: proofs\<close>

lemma smod_pos: "0 \<le> a \<Longrightarrow> 0 < b \<Longrightarrow> (a::int) smod b = a mod b"
  by (cases "a = 0") (simp_all add: smod_int_alt_def)

lemma smod_self: "(c::int) smod c = 0"
  by (simp add: smod_int_alt_def)

lemma query_loop_eq:
  "0 \<le> i \<Longrightarrow> query_loop flt rb start i result =
     result @ filter (passes flt)
       (map (\<lambda>j. js_get (items rb) ((start + int j) smod capacity rb)) [nat i..<nat (count rb)])"
proof (induction flt rb start i result rule: query_loop.induct)
  case (1 flt rb start i result)
  show ?case
  proof (cases "i < count rb")
    case True
    with "1.prems" have lt: "nat i < nat (count rb)" by simp
    have suc: "nat (i + 1) = Suc (nat i)" using "1.prems" by simp
    have ii: "int (nat i) = i" using "1.prems" by simp
    have IH: "query_loop flt rb start (i + 1)
        (if passes flt (js_get (items rb) ((start + i) smod capacity rb))
         then result @ [js_get (items rb) ((start + i) smod capacity rb)] else result) =
      (if passes flt (js_get (items rb) ((start + i) smod capacity rb))
         then result @ [js_get (items rb) ((start + i) smod capacity rb)] else result) @
      filter (passes flt)
       (map (\<lambda>j. js_get (items rb) ((start + int j) smod capacity rb)) [nat (i + 1)..<nat (count rb)])"
      using "1.IH"[OF True refl] "1.prems" by simp
    show ?thesis
      apply (subst query_loop.simps)
      apply (simp only: True if_True Let_def IH)
      apply (subst upt_conv_Cons[OF lt])
      using "1.prems" apply (simp add: suc)
      done
  next
    case False
    then have "nat (count rb) \<le> nat i" by simp
    then show ?thesis using False by (subst query_loop.simps) simp
  qed
qed

lemma query_held: "query None None rb = held rb"
  by (simp add: query_def held_def start_of_def query_loop_eq passes_def Let_def)

lemma query_filter_held:
  "query flt None rb = filter (passes flt) (held rb)"
  by (simp add: query_def held_def start_of_def query_loop_eq Let_def)

lemma rb_inv_new: "0 < c \<Longrightarrow> rb_inv (new_RingBuffer c)"
  by (simp add: rb_inv_def new_RingBuffer_def)

lemma smod_succ:
  assumes "0 \<le> h" "h < c"
  shows "(h + 1) smod c = (if h + 1 = c then 0 else h + (1::int))"
  using assms by (simp add: smod_pos)

lemma rb_inv_push: "rb_inv rb \<Longrightarrow> rb_inv (push x rb)"
  unfolding rb_inv_def push_def
  by (auto simp: smod_succ js_set_def)

lemma length_held: "length (held rb) = nat (count rb)"
  by (simp add: held_def)

lemma held_nth:
  "j < nat (count rb) \<Longrightarrow>
   held rb ! j = js_get (items rb) ((start_of rb + int j) smod capacity rb)"
  by (simp add: held_def)

lemma push_fields:
  "items (push x rb) = js_set (items rb) (head rb) (Some x)"
  "head (push x rb) = (head rb + 1) smod capacity rb"
  "count (push x rb) = (if count rb < capacity rb then count rb + 1 else count rb)"
  "capacity (push x rb) = capacity rb"
  by (simp_all add: push_def)

lemma held_push_notfull:
  assumes "rb_inv rb" "count rb < capacity rb"
  shows "held (push x rb) = held rb @ [Some x]"
proof -
  let ?c = "capacity rb" and ?h = "head rb"
  from assms have h: "?h = count rb" "0 \<le> ?h" "?h < ?c" "int (length (items rb)) = ?c" "0 < ?c"
    by (auto simp: rb_inv_def)
  have cp: "count (push x rb) = ?h + 1" using h assms(2) by (simp add: push_fields)
  have s0: "start_of rb = 0" using h by (simp add: start_of_def smod_pos)
  have s1: "start_of (push x rb) = 0"
  proof (cases "?h + 1 = ?c")
    case True
    then have "head (push x rb) = 0" using h by (simp add: push_fields smod_self)
    then show ?thesis using cp True h by (simp add: start_of_def push_fields(4) smod_self)
  next
    case False
    then have "head (push x rb) = ?h + 1" using h by (simp add: push_fields smod_succ)
    then show ?thesis using cp h by (simp add: start_of_def push_fields(4) smod_pos)
  qed
  have len: "length (held (push x rb)) = length (held rb @ [Some x])"
    using h cp by (simp add: length_held)
  show ?thesis
  proof (rule nth_equalityI[OF len])
    fix j assume "j < length (held (push x rb))"
    then have j: "j < nat (?h + 1)" using cp by (simp add: length_held)
    then have idx: "int j smod ?c = int j" using h by (simp add: smod_pos)
    have L: "held (push x rb) ! j = js_get (js_set (items rb) ?h (Some x)) (int j)"
      using j cp idx by (simp add: held_nth s1 push_fields)
    show "held (push x rb) ! j = (held rb @ [Some x]) ! j"
    proof (cases "j = nat ?h")
      case True
      have "(held rb @ [Some x]) ! j = Some x"
        using True h by (simp add: nth_append length_held)
      moreover have "js_get (js_set (items rb) ?h (Some x)) (int j) = Some x"
        using True h by (simp add: js_get_def js_set_def)
      ultimately show ?thesis using L by simp
    next
      case False
      with j have jl: "j < nat ?h" by simp
      then have "(held rb @ [Some x]) ! j = js_get (items rb) (int j)"
        using h idx by (simp add: nth_append length_held held_nth s0)
      moreover have "js_get (js_set (items rb) ?h (Some x)) (int j) = js_get (items rb) (int j)"
        using jl h by (simp add: js_get_def js_set_def)
      ultimately show ?thesis using L by simp
    qed
  qed
qed

lemma held_push_full:
  assumes "rb_inv rb" "count rb = capacity rb"
  shows "held (push x rb) = tl (held rb) @ [Some x]"
proof -
  let ?c = "capacity rb" and ?h = "head rb"
  from assms have h: "0 \<le> ?h" "?h < ?c" "int (length (items rb)) = ?c" "0 < ?c"
    by (auto simp: rb_inv_def)
  have cp: "count (push x rb) = ?c" using assms(2) by (simp add: push_fields)
  have s0: "start_of rb = ?h" using h assms(2) by (simp add: start_of_def smod_pos)
  have hp: "head (push x rb) = (?h + 1) mod ?c" using h by (simp add: push_fields smod_pos)
  have hp0: "0 \<le> (?h + 1) mod ?c" using h by simp
  have "start_of (push x rb) = ((?h + 1) mod ?c - ?c + ?c) smod ?c"
    unfolding start_of_def by (simp only: hp cp push_fields(4))
  then have s1: "start_of (push x rb) = (?h + 1) mod ?c"
    using hp0 h by (simp add: smod_pos)
  have len: "length (held (push x rb)) = length (tl (held rb) @ [Some x])"
    using h assms(2) cp by (simp add: length_held)
  show ?thesis
  proof (rule nth_equalityI[OF len])
    fix j assume "j < length (held (push x rb))"
    then have j: "j < nat ?c" using cp by (simp add: length_held)
    have m1: "((?h + 1) mod ?c + int j) smod ?c = (?h + 1 + int j) mod ?c"
      using h hp0 by (simp add: smod_pos mod_add_left_eq)
    have L: "held (push x rb) ! j = js_get (js_set (items rb) ?h (Some x)) ((?h + 1 + int j) mod ?c)"
      using j cp by (simp add: held_nth s1 m1 push_fields)
    have rng: "0 \<le> (?h + 1 + int j) mod ?c" "(?h + 1 + int j) mod ?c < ?c"
      using h by simp_all
    show "held (push x rb) ! j = (tl (held rb) @ [Some x]) ! j"
    proof (cases "int j = ?c - 1")
      case True
      then have "(?h + 1 + int j) mod ?c = ?h" using h by simp
      then have "js_get (js_set (items rb) ?h (Some x)) ((?h + 1 + int j) mod ?c) = Some x"
        using h by (simp add: js_get_def js_set_def)
      moreover have "length (tl (held rb)) = j" using True assms(2) by (simp add: length_held)
      then have "(tl (held rb) @ [Some x]) ! j = Some x" by (simp add: nth_append)
      ultimately show ?thesis using L by simp
    next
      case False
      with j have jl: "int j < ?c - 1" by simp
      have ne: "(?h + 1 + int j) mod ?c \<noteq> ?h"
      proof
        assume e: "(?h + 1 + int j) mod ?c = ?h"
        then have "?c dvd (?h + 1 + int j) - ?h"
          by (metis mod_eq_dvd_iff mod_mod_trivial)
        then have "?c dvd 1 + int j" by (simp add: algebra_simps)
        then have "?c \<le> 1 + int j" by (rule zdvd_imp_le) simp
        then show False using jl by simp
      qed
      have m0: "(?h + int (Suc j)) smod ?c = (?h + 1 + int j) mod ?c"
        using h by (simp add: smod_pos add.commute add.left_commute)
      have "Suc j < nat (count rb)" using jl assms(2) by simp
      then have "held rb ! Suc j = js_get (items rb) ((?h + 1 + int j) mod ?c)"
        using m0 by (simp only: held_nth s0)
      moreover have "j < length (tl (held rb))" using jl assms(2) by (simp add: length_held)
      ultimately have R: "(tl (held rb) @ [Some x]) ! j = js_get (items rb) ((?h + 1 + int j) mod ?c)"
        by (simp add: nth_append nth_tl)
      have "js_get (js_set (items rb) ?h (Some x)) ((?h + 1 + int j) mod ?c)
             = js_get (items rb) ((?h + 1 + int j) mod ?c)"
        using ne rng h by (simp add: js_get_def js_set_def nat_eq_iff)
      then show ?thesis using L R by simp
    qed
  qed
qed

lemma held_push:
  "rb_inv rb \<Longrightarrow>
   held (push x rb) = (if count rb < capacity rb then held rb else tl (held rb)) @ [Some x]"
  using held_push_notfull[of rb x] held_push_full[of rb x]
  by (auto simp: rb_inv_def)


lemma passes_Some: "passes (Some f) = f"
  by (simp add: fun_eq_iff passes_def)

lemma push_all_gen:
  assumes "rb_inv rb" "capacity rb = int c"
    and "held rb = map Some (drop (length ys - c) ys)"
    and "count rb = min (int (length ys)) (int c)"
  shows "held (push_all xs rb) = map Some (drop (length (ys @ xs) - c) (ys @ xs)) \<and>
         rb_inv (push_all xs rb) \<and> capacity (push_all xs rb) = int c \<and>
         count (push_all xs rb) = min (int (length (ys @ xs))) (int c)"
  using assms
proof (induction xs arbitrary: rb ys)
  case Nil
  then show ?case by (simp add: push_all_def)
next
  case (Cons x xs)
  let ?rb = "push x rb"
  have i: "rb_inv ?rb" using Cons.prems(1) by (rule rb_inv_push)
  have c: "capacity ?rb = int c" using Cons.prems(2) by (simp add: push_fields)
  have n: "count ?rb = min (int (length (ys @ [x]))) (int c)"
    using Cons.prems(2,4) by (auto simp: push_fields)
  have h: "held ?rb = map Some (drop (length (ys @ [x]) - c) (ys @ [x]))"
  proof (cases "length ys < c")
    case True
    then have "count rb < capacity rb" using Cons.prems(2,4) by simp
    then have "held ?rb = held rb @ [Some x]" using Cons.prems(1) by (simp add: held_push)
    then show ?thesis using True Cons.prems(3) by simp
  next
    case False
    then have "\<not> count rb < capacity rb" using Cons.prems(2,4) by simp
    then have "held ?rb = tl (held rb) @ [Some x]" using Cons.prems(1) by (simp add: held_push)
    moreover have "tl (drop (length ys - c) ys) = drop (Suc (length ys) - c) ys"
      using False by (simp add: drop_Suc[symmetric] tl_drop Suc_diff_le)
    moreover have "0 < c" using Cons.prems(1,2) by (simp add: rb_inv_def)
    ultimately show ?thesis using False Cons.prems(3) by (simp add: map_tl[symmetric])
  qed
  from Cons.IH[OF i c h n] show ?case by (simp add: push_all_def)
qed

lemma push_all_new:
  assumes "1 \<le> c"
  shows "held (push_all xs (new_RingBuffer c)) = map Some (drop (length xs - c) xs)"
    and "rb_inv (push_all xs (new_RingBuffer c))"
    and "capacity (push_all xs (new_RingBuffer c)) = int c"
    and "count (push_all xs (new_RingBuffer c)) = min (int (length xs)) (int c)"
proof -
  have i: "rb_inv (new_RingBuffer c :: 'a RingBuffer)" using assms by (simp add: rb_inv_new)
  have "held (new_RingBuffer c :: 'a RingBuffer) = map Some (drop (length ([]::'a list) - c) [])"
    by (simp add: held_def new_RingBuffer_def)
  moreover have "capacity (new_RingBuffer c :: 'a RingBuffer) = int c"
    "count (new_RingBuffer c :: 'a RingBuffer) = min (int (length ([]::'a list))) (int c)"
    by (simp_all add: new_RingBuffer_def)
  ultimately have *: "held (push_all xs (new_RingBuffer c)) = map Some (drop (length ([] @ xs) - c) ([] @ xs)) \<and>
         rb_inv (push_all xs (new_RingBuffer c)) \<and> capacity (push_all xs (new_RingBuffer c)) = int c \<and>
         count (push_all xs (new_RingBuffer c)) = min (int (length ([] @ xs))) (int c)"
    using push_all_gen[OF i, of c "[]" xs] by blast
  from * show "held (push_all xs (new_RingBuffer c)) = map Some (drop (length xs - c) xs)" by simp
  from * show "rb_inv (push_all xs (new_RingBuffer c))" by simp
  from * show "capacity (push_all xs (new_RingBuffer c)) = int c" by simp
  from * show "count (push_all xs (new_RingBuffer c)) = min (int (length xs)) (int c)" by simp
qed

lemma slice_last_drop: "0 < l \<Longrightarrow> slice_last l xs = drop (length xs - nat l) xs"
proof -
  assume "0 < l"
  then have "nat (max (int (length xs) - l) 0) = length xs - nat l" by linarith
  then show ?thesis by (simp only: slice_last_def)
qed

text \<open>
  Claim C1. For a capacity \<open>c \<ge> 1\<close> and any sequence \<open>xs\<close> of pushed items, \<open>query()\<close>
  returns exactly the last \<open>min (length xs) c\<close> items pushed, oldest first; the array never
  holds more than \<open>c\<close> slots; and a push on a full buffer drops the oldest item and appends
  the new one. \<open>push\<close> is a total function: it has no failing branch.
\<close>

theorem ring_buffer_query_recent:
  assumes "1 \<le> c"
  shows "query None None (push_all xs (new_RingBuffer c)) = map Some (drop (length xs - c) xs)
       \<and> length (query None None (push_all xs (new_RingBuffer c))) = min (length xs) c
       \<and> length (items (push_all xs (new_RingBuffer c))) = c
       \<and> (c \<le> length xs \<longrightarrow>
            query None None (push x (push_all xs (new_RingBuffer c)))
              = tl (query None None (push_all xs (new_RingBuffer c))) @ [Some x])"
proof -
  let ?rb = "push_all xs (new_RingBuffer c) :: 'a RingBuffer"
  note f = push_all_new[OF assms, of xs]
  have 1: "query None None ?rb = map Some (drop (length xs - c) xs)"
    by (simp only: query_held f(1))
  have 2: "length (query None None ?rb) = min (length xs) c"
    by (simp add: 1)
  have 3: "length (items ?rb) = c" using f(2,3) by (simp add: rb_inv_def)
  have 4: "c \<le> length xs \<longrightarrow> query None None (push x ?rb) = tl (query None None ?rb) @ [Some x]"
    using f(2,3,4) by (simp add: query_held held_push)
  from 1 2 3 4 show ?thesis by blast
qed

theorem ring_buffer_query_recent_witness:
  "(1::nat) \<le> 3 \<and> (3::nat) \<le> length [1, 2, 3, 4 :: nat] \<and>
   query None None (push_all [1, 2, 3, 4 :: nat] (new_RingBuffer 3)) = [Some 2, Some 3, Some 4] \<and>
   query None None (push 5 (push_all [1, 2, 3, 4 :: nat] (new_RingBuffer 3)))
     = [Some 3, Some 4, Some 5]"
  using ring_buffer_query_recent [of 3 "[1, 2, 3, 4 :: nat]" 5] by simp

text \<open>
  Claim C2. With a filter and a limit \<open>l > 0\<close>, \<open>query\<close> returns the last \<open>l\<close> of the held
  items that satisfy the filter, in oldest-to-newest order (all of them when fewer than \<open>l\<close>
  match): the limit is applied after filtering and keeps the most recent matches.
\<close>

theorem query_filter_limit_last:
  assumes "0 < l"
  shows "query (Some f) (Some l) rb =
           (let m = filter f (query None None rb) in drop (length m - nat l) m)"
  using assms
  by (simp add: query_def Let_def query_loop_eq passes_def passes_Some slice_last_drop)

theorem query_filter_limit_last_witness:
  "(0::int) < 2 \<and>
   query (Some (\<lambda>s. s \<noteq> Some 3)) (Some 2) (push_all [1, 2, 3, 4, 5 :: nat] (new_RingBuffer 4))
     = [Some 4, Some 5]"
proof -
  have "query None None (push_all [1, 2, 3, 4, 5 :: nat] (new_RingBuffer 4))
        = [Some 2, Some 3, Some 4, Some 5]"
    using push_all_new(1) [of 4 "[1, 2, 3, 4, 5 :: nat]"] by (simp add: query_held)
  then show ?thesis
    using query_filter_limit_last [of 2 "\<lambda>s. s \<noteq> Some 3"
        "push_all [1, 2, 3, 4, 5 :: nat] (new_RingBuffer 4)"]
    by simp
qed

text \<open>
  Claim C10. A limit that is zero or negative is ignored: with a filter the result is all
  the held items that satisfy it, oldest first, and without one all the held items; it is
  the result of the same query without a limit.
\<close>

theorem query_nonpositive_limit:
  assumes "l \<le> 0"
  shows "query (Some f) (Some l) rb = filter f (query None None rb) \<and>
         query None (Some l) rb = query None None rb \<and>
         query flt (Some l) rb = query flt None rb \<and>
         (1 \<le> c \<longrightarrow>
            query (Some f) (Some l) (push_all xs (new_RingBuffer c))
              = filter f (map Some (drop (length xs - c) xs)))"
proof -
  have same: "query g (Some l) b = query g None b" for g and b :: "'a RingBuffer"
    using assms by (simp add: query_def Let_def)
  have flt: "query (Some f) None b = filter f (query None None b)" for b :: "'a RingBuffer"
    by (simp only: query_filter_held [of "Some f"] query_held passes_Some)
  have 1: "query (Some f) (Some l) rb = filter f (query None None rb)"
    by (simp only: same flt)
  have 2: "query None (Some l) rb = query None None rb" by (rule same)
  have 3: "query flt (Some l) rb = query flt None rb" by (rule same)
  have 4: "1 \<le> c \<longrightarrow>
            query (Some f) (Some l) (push_all xs (new_RingBuffer c))
              = filter f (map Some (drop (length xs - c) xs))"
  proof
    assume c: "1 \<le> c"
    have "query None None (push_all xs (new_RingBuffer c)) = map Some (drop (length xs - c) xs)"
      by (simp only: query_held push_all_new(1)[OF c])
    then show "query (Some f) (Some l) (push_all xs (new_RingBuffer c))
              = filter f (map Some (drop (length xs - c) xs))"
      by (simp only: same flt)
  qed
  show ?thesis by (intro conjI) (rule 1 2 3 4)+
qed

theorem query_nonpositive_limit_witness:
  "(0::int) \<le> 0 \<and> (- 2 :: int) \<le> 0 \<and> (1::nat) \<le> 4 \<and>
   query (Some (\<lambda>s. s \<noteq> Some 3)) (Some 0) (push_all [1, 2, 3, 4, 5 :: nat] (new_RingBuffer 4))
     = [Some 2, Some 4, Some 5] \<and>
   query (Some (\<lambda>s. s \<noteq> Some 3)) (Some (- 2)) (push_all [1, 2, 3, 4, 5 :: nat] (new_RingBuffer 4))
     = [Some 2, Some 4, Some 5] \<and>
   query None (Some 0) (push_all [1, 2, 3, 4, 5 :: nat] (new_RingBuffer 4))
     = [Some 2, Some 3, Some 4, Some 5]"
proof -
  let ?rb = "push_all [1, 2, 3, 4, 5 :: nat] (new_RingBuffer 4)"
  let ?f = "\<lambda>s. s \<noteq> Some (3::nat)"
  have z: "(0::int) \<le> 0" and m: "(- 2 :: int) \<le> 0" and c: "(1::nat) \<le> 4" by simp_all
  note A = query_nonpositive_limit [OF z, of ?f ?rb None 4 "[1, 2, 3, 4, 5 :: nat]"]
  note B = query_nonpositive_limit [OF m, of ?f ?rb None 4 "[1, 2, 3, 4, 5 :: nat]"]
  note A4 = A [THEN conjunct2, THEN conjunct2, THEN conjunct2, THEN mp, OF c]
  note B4 = B [THEN conjunct2, THEN conjunct2, THEN conjunct2, THEN mp, OF c]
  have a: "query (Some ?f) (Some 0) ?rb = [Some 2, Some 4, Some 5]"
    using A4 by simp
  have b: "query (Some ?f) (Some (- 2)) ?rb = [Some 2, Some 4, Some 5]"
    using B4 by simp
  have h: "query None None ?rb = [Some 2, Some 3, Some 4, Some 5]"
    using push_all_new(1) [of 4 "[1, 2, 3, 4, 5 :: nat]"] by (simp add: query_held)
  have n: "query None (Some 0) ?rb = [Some 2, Some 3, Some 4, Some 5]"
    using A [THEN conjunct2, THEN conjunct1] h by simp
  from a b n show ?thesis by simp
qed

section \<open>Event filters: proofs\<close>



























text \<open>
  Claim C4. The predicate that GET /errors, GET /errors/summary and GET /inspect apply to a
  buffered event holds exactly for an exception, a network error, a console event of level
  \<open>error\<close> and a response with status 400 or more; a response with status 404 is an
  error, one with status 200 is not.
\<close>

theorem error_classification:
  "errors_filter e = is_error_event e \<and>
   summary_filter e = is_error_event e \<and>
   inspect_filter e = is_error_event e \<and>
   errors_filter \<lparr>body = Response 404 u, ts = t, source = s\<rparr> \<and>
   \<not> errors_filter \<lparr>body = Response 200 u, ts = t, source = s\<rparr>"
  by (cases "body e")
     (simp_all add: errors_filter_def summary_filter_def inspect_filter_def
        is_error_event_def status_ge_def)








section \<open>Frequency annotation: proofs\<close>









section \<open>Reference table and snapshot capacity: proofs\<close>

lemma set_refs_apply:
  "set_refs els m r =
     (if r \<in> ref ` set els then Some (last (filter (\<lambda>e. ref e = r) els)) else m r)"
proof (induction els arbitrary: m)
  case Nil
  then show ?case by simp
next
  case (Cons el els)
  show ?case by (auto simp: Cons.IH image_iff filter_empty_conv)
qed

lemma set_refs_absent: "r \<notin> ref ` set els \<Longrightarrow> set_refs els Map.empty r = None"
  by (simp add: set_refs_apply)

lemma set_refs_present:
  assumes "r \<in> ref ` set els"
  shows "\<exists>el \<in> set els. ref el = r \<and> set_refs els Map.empty r = Some el"
proof -
  let ?f = "filter (\<lambda>e. ref e = r) els"
  from assms have ne: "?f \<noteq> []" by (auto simp: filter_empty_conv)
  then have "last ?f \<in> set ?f" by (rule last_in_set)
  then have "last ?f \<in> set els" "ref (last ?f) = r" by auto
  moreover have "set_refs els Map.empty r = Some (last ?f)" using assms by (simp add: set_refs_apply)
  ultimately show ?thesis by blast
qed

lemma snapshot_handler_flags:
  "has_client (snapshot_handler x st) = has_client st"
  "connected (snapshot_handler x st) = connected st"
  by (simp_all add: snapshot_handler_def split: snapshot_eval.splits)

lemma run_snapshots_flags:
  "has_client (run_snapshots rs st) = has_client st \<and> connected (run_snapshots rs st) = connected st"
  unfolding run_snapshots_def
  by (induction rs arbitrary: st) (simp_all add: snapshot_handler_flags)

lemma run_snapshots_last:
  assumes "has_client st" "connected st"
  shows "refMap (run_snapshots (rs @ [SnapshotValue els]) st) = set_refs els Map.empty"
proof -
  have "has_client (run_snapshots rs st)" "connected (run_snapshots rs st)"
    using assms run_snapshots_flags[of rs st] by simp_all
  then show ?thesis by (simp add: run_snapshots_def snapshot_handler_def)
qed

lemma resolve_eq:
  assumes "has_client st" "connected st"
  shows "resolve r st = (case refMap st r of None \<Rightarrow> Inl RefNotFound | Some e \<Rightarrow> Inr (selector e))"
  using assms by (simp add: resolve_def click_handler_def refMap_get_def split: option.splits)

lemma numbered_refs: "map ref (numbered d r cs) = map (\<lambda>i. r + int i) [0..<length cs]"
proof (induction cs arbitrary: r)
  case Nil
  then show ?case by simp
next
  case (Cons c cs)
  have "[0..<length (c # cs)] = 0 # map Suc [0..<length cs]"
    by (simp add: upt_conv_Cons map_Suc_upt del: upt_Suc)
  then show ?case by (simp add: Cons.IH comp_def add.assoc del: upt_Suc)
qed

lemma length_numbered: "length (numbered d r cs) = length cs"
  by (induction cs arbitrary: r) simp_all

lemma emit_loop_eq:
  "r \<le> 75 \<Longrightarrow> emit_loop d cs r acc = acc @ numbered d r (take (nat (76 - r)) cs)"
proof (induction cs arbitrary: r acc)
  case Nil
  then show ?case by simp
next
  case (Cons c cs)
  show ?case
  proof (cases "r + 1 > 75")
    case True
    with Cons.prems have "r = 75" by simp
    then show ?thesis by (simp add: Let_def)
  next
    case False
    then have le: "r + 1 \<le> 75" by simp
    have n: "nat (76 - r) = Suc (nat (76 - (r + 1)))" using le by simp
    show ?thesis using False Cons.IH[OF le] by (simp add: Let_def n)
  qed
qed

lemma length_final: "length (finalCandidates all) \<le> 75"
  by (auto simp: finalCandidates_def Let_def)


lemma click_ref_eq:
  assumes "has_client st" "connected st"
  shows "click_handler \<lparr>body_ref = RefNumber r, body_selector = sel, body_value = v\<rparr> st
           = (case refMap st r of None \<Rightarrow> ErrorResponse 400 RefNotFound
              | Some e \<Rightarrow> EvaluateClick (selector e))"
  using assms by (simp add: click_handler_def refMap_get_def split: option.splits)

lemma fill_ref_eq:
  assumes "has_client st" "connected st"
  shows "fill_handler \<lparr>body_ref = RefNumber r, body_selector = sel, body_value = Some w\<rparr> st
           = (case refMap st r of None \<Rightarrow> ErrorResponse 400 RefNotFound
              | Some e \<Rightarrow> EvaluateFill (selector e) w)"
  using assms by (simp add: fill_handler_def refMap_get_def split: option.splits)

text \<open>
  Claim C6. On a connected daemon, resolving a ref gives the selector stored under it in the
  table when the ref is there, and otherwise the ref-not-found error, with no page action:
  a click request with the ref evaluates the click expression on the stored selector, a fill
  request with the ref and a value evaluates the fill expression on the stored selector and
  that value, and both answer 400 with the ref-not-found error when the ref is absent.
  A snapshot replaces the table by the entries of its own elements whatever the history of
  earlier snapshots, so a ref that the newest snapshot assigned resolves, in click and in
  fill, to the selector of an element of that snapshot with this ref, and a ref that it did
  not assign does not resolve, even if an earlier one assigned it; before the first snapshot
  no ref resolves.
\<close>

theorem ref_resolution:
  assumes "has_client st" "connected st"
  shows
    "resolve r st = (case refMap st r of None \<Rightarrow> Inl RefNotFound | Some e \<Rightarrow> Inr (selector e)) \<and>
     refMap (run_snapshots (rs @ [SnapshotValue els]) st) = set_refs els Map.empty \<and>
     (r \<in> ref ` set els \<longrightarrow>
        (\<exists>el \<in> set els. ref el = r \<and>
           resolve r (run_snapshots (rs @ [SnapshotValue els]) st) = Inr (selector el))) \<and>
     (r \<notin> ref ` set els \<longrightarrow>
        resolve r (run_snapshots (rs @ [SnapshotValue els]) st) = Inl RefNotFound \<and>
        click_handler \<lparr>body_ref = RefNumber r, body_selector = sel, body_value = v\<rparr>
          (run_snapshots (rs @ [SnapshotValue els]) st) = ErrorResponse 400 RefNotFound \<and>
        fill_handler \<lparr>body_ref = RefNumber r, body_selector = sel, body_value = v\<rparr>
          (run_snapshots (rs @ [SnapshotValue els]) st) = ErrorResponse 400 RefNotFound) \<and>
     resolve r (initial_state\<lparr>has_client := True, connected := True\<rparr>) = Inl RefNotFound \<and>
     click_handler \<lparr>body_ref = RefNumber r, body_selector = sel, body_value = v\<rparr> st
       = (case refMap st r of None \<Rightarrow> ErrorResponse 400 RefNotFound
          | Some e \<Rightarrow> EvaluateClick (selector e)) \<and>
     fill_handler \<lparr>body_ref = RefNumber r, body_selector = sel, body_value = Some w\<rparr> st
       = (case refMap st r of None \<Rightarrow> ErrorResponse 400 RefNotFound
          | Some e \<Rightarrow> EvaluateFill (selector e) w) \<and>
     (r \<in> ref ` set els \<longrightarrow>
        (\<exists>el \<in> set els. ref el = r \<and>
           refMap (run_snapshots (rs @ [SnapshotValue els]) st) r = Some el \<and>
           resolve r (run_snapshots (rs @ [SnapshotValue els]) st) = Inr (selector el) \<and>
           click_handler \<lparr>body_ref = RefNumber r, body_selector = sel, body_value = v\<rparr>
             (run_snapshots (rs @ [SnapshotValue els]) st) = EvaluateClick (selector el) \<and>
           fill_handler \<lparr>body_ref = RefNumber r, body_selector = sel, body_value = Some w\<rparr>
             (run_snapshots (rs @ [SnapshotValue els]) st) = EvaluateFill (selector el) w)) \<and>
     click_handler \<lparr>body_ref = RefNumber r, body_selector = sel, body_value = v\<rparr>
       (initial_state\<lparr>has_client := True, connected := True\<rparr>) = ErrorResponse 400 RefNotFound \<and>
     fill_handler \<lparr>body_ref = RefNumber r, body_selector = sel, body_value = v\<rparr>
       (initial_state\<lparr>has_client := True, connected := True\<rparr>) = ErrorResponse 400 RefNotFound"
proof -
  let ?st = "run_snapshots (rs @ [SnapshotValue els]) st"
  have fl: "has_client ?st" "connected ?st"
    using assms run_snapshots_flags[of "rs @ [SnapshotValue els]" st] by simp_all
  have tbl: "refMap ?st = set_refs els Map.empty"
    using assms by (rule run_snapshots_last)
  have 1: "resolve r st = (case refMap st r of None \<Rightarrow> Inl RefNotFound | Some e \<Rightarrow> Inr (selector e))"
    using assms by (rule resolve_eq)
  have 8: "r \<in> ref ` set els \<longrightarrow>
        (\<exists>el \<in> set els. ref el = r \<and>
           refMap ?st r = Some el \<and>
           resolve r ?st = Inr (selector el) \<and>
           click_handler \<lparr>body_ref = RefNumber r, body_selector = sel, body_value = v\<rparr> ?st
             = EvaluateClick (selector el) \<and>
           fill_handler \<lparr>body_ref = RefNumber r, body_selector = sel, body_value = Some w\<rparr> ?st
             = EvaluateFill (selector el) w)"
  proof
    assume "r \<in> ref ` set els"
    then obtain el where el: "el \<in> set els" "ref el = r" "set_refs els Map.empty r = Some el"
      using set_refs_present by blast
    then have m: "refMap ?st r = Some el" by (simp add: tbl)
    have a: "resolve r ?st = Inr (selector el)"
      using resolve_eq[OF fl, of r] by (simp add: m)
    have b: "click_handler \<lparr>body_ref = RefNumber r, body_selector = sel, body_value = v\<rparr> ?st
             = EvaluateClick (selector el)"
      using click_ref_eq[OF fl, of r sel v] by (simp add: m)
    have c: "fill_handler \<lparr>body_ref = RefNumber r, body_selector = sel, body_value = Some w\<rparr> ?st
             = EvaluateFill (selector el) w"
      using fill_ref_eq[OF fl, of r sel w] by (simp add: m)
    from el(1,2) m a b c
    show "\<exists>el \<in> set els. ref el = r \<and>
           refMap ?st r = Some el \<and>
           resolve r ?st = Inr (selector el) \<and>
           click_handler \<lparr>body_ref = RefNumber r, body_selector = sel, body_value = v\<rparr> ?st
             = EvaluateClick (selector el) \<and>
           fill_handler \<lparr>body_ref = RefNumber r, body_selector = sel, body_value = Some w\<rparr> ?st
             = EvaluateFill (selector el) w"
      by (intro bexI[of _ el] conjI)
  qed
  have 3: "r \<in> ref ` set els \<longrightarrow>
        (\<exists>el \<in> set els. ref el = r \<and> resolve r ?st = Inr (selector el))"
  proof
    assume "r \<in> ref ` set els"
    with 8 obtain el where "el \<in> set els" "ref el = r" "resolve r ?st = Inr (selector el)"
      by (elim impE bexE conjE)
    then show "\<exists>el \<in> set els. ref el = r \<and> resolve r ?st = Inr (selector el)"
      by (intro bexI[of _ el] conjI)
  qed
  have 4: "r \<notin> ref ` set els \<longrightarrow>
        resolve r ?st = Inl RefNotFound \<and>
        click_handler \<lparr>body_ref = RefNumber r, body_selector = sel, body_value = v\<rparr> ?st
          = ErrorResponse 400 RefNotFound \<and>
        fill_handler \<lparr>body_ref = RefNumber r, body_selector = sel, body_value = v\<rparr> ?st
          = ErrorResponse 400 RefNotFound"
  proof
    assume "r \<notin> ref ` set els"
    then have n: "refMap ?st r = None" by (simp add: tbl set_refs_absent)
    show "resolve r ?st = Inl RefNotFound \<and>
        click_handler \<lparr>body_ref = RefNumber r, body_selector = sel, body_value = v\<rparr> ?st
          = ErrorResponse 400 RefNotFound \<and>
        fill_handler \<lparr>body_ref = RefNumber r, body_selector = sel, body_value = v\<rparr> ?st
          = ErrorResponse 400 RefNotFound"
      using fl n resolve_eq[OF fl, of r]
      by (simp add: click_handler_def fill_handler_def refMap_get_def)
  qed
  have 5: "resolve r (initial_state\<lparr>has_client := True, connected := True\<rparr>) = Inl RefNotFound"
    by (simp add: resolve_def click_handler_def refMap_get_def initial_state_def)
  have 6: "click_handler \<lparr>body_ref = RefNumber r, body_selector = sel, body_value = v\<rparr> st
       = (case refMap st r of None \<Rightarrow> ErrorResponse 400 RefNotFound
          | Some e \<Rightarrow> EvaluateClick (selector e))"
    using assms by (rule click_ref_eq)
  have 7: "fill_handler \<lparr>body_ref = RefNumber r, body_selector = sel, body_value = Some w\<rparr> st
       = (case refMap st r of None \<Rightarrow> ErrorResponse 400 RefNotFound
          | Some e \<Rightarrow> EvaluateFill (selector e) w)"
    using assms by (rule fill_ref_eq)
  have 9: "click_handler \<lparr>body_ref = RefNumber r, body_selector = sel, body_value = v\<rparr>
       (initial_state\<lparr>has_client := True, connected := True\<rparr>) = ErrorResponse 400 RefNotFound"
    by (simp add: click_handler_def refMap_get_def initial_state_def)
  have 10: "fill_handler \<lparr>body_ref = RefNumber r, body_selector = sel, body_value = v\<rparr>
       (initial_state\<lparr>has_client := True, connected := True\<rparr>) = ErrorResponse 400 RefNotFound"
    by (simp add: fill_handler_def refMap_get_def initial_state_def)
  show ?thesis by (intro conjI) (rule 1 tbl 3 4 5 6 7 8 9 10)+
qed

theorem ref_resolution_witness:
  "resolve 3 (run_snapshots
      [SnapshotValue [example_ref 1 ''#a'', example_ref 2 ''#b'', example_ref 3 ''#c''],
       SnapshotValue [example_ref 1 ''#a'', example_ref 2 ''#d'']]
      (initial_state\<lparr>has_client := True, connected := True\<rparr>)) = Inl RefNotFound \<and>
   resolve 2 (run_snapshots
      [SnapshotValue [example_ref 1 ''#a'', example_ref 2 ''#b'', example_ref 3 ''#c''],
       SnapshotValue [example_ref 1 ''#a'', example_ref 2 ''#d'']]
      (initial_state\<lparr>has_client := True, connected := True\<rparr>)) = Inr ''#d'' \<and>
   fill_handler \<lparr>body_ref = RefNumber 2, body_selector = None, body_value = Some ''hello''\<rparr>
     (run_snapshots
      [SnapshotValue [example_ref 1 ''#a'', example_ref 2 ''#b'', example_ref 3 ''#c''],
       SnapshotValue [example_ref 1 ''#a'', example_ref 2 ''#d'']]
      (initial_state\<lparr>has_client := True, connected := True\<rparr>)) = EvaluateFill ''#d'' ''hello'' \<and>
   click_handler \<lparr>body_ref = RefNumber 2, body_selector = None, body_value = None\<rparr>
     (run_snapshots
      [SnapshotValue [example_ref 1 ''#a'', example_ref 2 ''#b'', example_ref 3 ''#c''],
       SnapshotValue [example_ref 1 ''#a'', example_ref 2 ''#d'']]
      (initial_state\<lparr>has_client := True, connected := True\<rparr>)) = EvaluateClick ''#d'' \<and>
   fill_handler \<lparr>body_ref = RefNumber 3, body_selector = None, body_value = Some ''hello''\<rparr>
     (run_snapshots
      [SnapshotValue [example_ref 1 ''#a'', example_ref 2 ''#b'', example_ref 3 ''#c''],
       SnapshotValue [example_ref 1 ''#a'', example_ref 2 ''#d'']]
      (initial_state\<lparr>has_client := True, connected := True\<rparr>)) = ErrorResponse 400 RefNotFound"
proof -
  let ?st = "initial_state\<lparr>has_client := True, connected := True\<rparr>"
  let ?A = "[example_ref 1 ''#a'', example_ref 2 ''#b'', example_ref 3 ''#c'']"
  let ?B = "[example_ref 1 ''#a'', example_ref 2 ''#d'']"
  let ?S = "run_snapshots ([SnapshotValue ?A] @ [SnapshotValue ?B]) ?st"
  have c: "has_client ?st" "connected ?st" by simp_all
  have n3: "3 \<notin> ref ` set ?B" by (simp add: example_ref_def)
  have i2: "2 \<in> ref ` set ?B" by (simp add: example_ref_def)
  note T3 = ref_resolution [OF c, of 3 "[SnapshotValue ?A]" ?B None "Some ''hello''" "''hello''"]
  note T2 = ref_resolution [OF c, of 2 "[SnapshotValue ?A]" ?B None None "''hello''"]
  note N = T3 [THEN conjunct2, THEN conjunct2, THEN conjunct2, THEN conjunct1, THEN mp, OF n3]
  have a: "resolve 3 ?S = Inl RefNotFound" by (rule N [THEN conjunct1])
  have e: "fill_handler \<lparr>body_ref = RefNumber 3, body_selector = None, body_value = Some ''hello''\<rparr> ?S
             = ErrorResponse 400 RefNotFound"
    by (rule N [THEN conjunct2, THEN conjunct2])
  note P = T2 [THEN conjunct2, THEN conjunct2, THEN conjunct2, THEN conjunct2, THEN conjunct2,
               THEN conjunct2, THEN conjunct2, THEN conjunct1, THEN mp, OF i2]
  from P obtain el where el: "el \<in> set ?B" "ref el = 2"
    and r2: "resolve 2 ?S = Inr (selector el)"
    and c2: "click_handler \<lparr>body_ref = RefNumber 2, body_selector = None, body_value = None\<rparr> ?S
               = EvaluateClick (selector el)"
    and f2: "fill_handler \<lparr>body_ref = RefNumber 2, body_selector = None, body_value = Some ''hello''\<rparr> ?S
               = EvaluateFill (selector el) ''hello''"
    by (elim bexE conjE)
  from el have s: "selector el = ''#d''" by (auto simp: example_ref_def)
  from a e r2 c2 f2 show ?thesis by (simp add: s)
qed

lemma numbered_nth:
  "i < length cs \<Longrightarrow> numbered d r cs ! i = (d (cs ! i))\<lparr>ref := r + int i\<rparr>"
proof (induction cs arbitrary: r i)
  case Nil
  then show ?case by simp
next
  case (Cons c cs)
  show ?case
  proof (cases i)
    case 0
    then show ?thesis by simp
  next
    case (Suc j)
    with Cons.prems have "j < length cs" by simp
    from Cons.IH[OF this, of "r + 1"] show ?thesis by (simp add: Suc add.assoc)
  qed
qed

lemma final_by_host:
  "finalCandidates all =
     (if (\<exists>c \<in> set all. snd c \<noteq> None)
      then take 50 (filter (\<lambda>c. snd c = None) all) @ take 25 (filter (\<lambda>c. snd c \<noteq> None) all)
      else take 75 all)"
proof (cases "\<exists>c \<in> set all. snd c \<noteq> None")
  case True
  then have "filter (\<lambda>c. snd c \<noteq> None) all \<noteq> []" by (simp add: filter_empty_conv)
  then show ?thesis using True
    by (simp add: finalCandidates_def mainCandidates_def shadowCandidates_def Let_def)
next
  case False
  then have a: "filter (\<lambda>c. snd c \<noteq> None) all = []" by (simp add: filter_empty_conv)
  from False have b: "filter (\<lambda>c. snd c = None) all = all" by (simp add: filter_id_conv)
  have "finalCandidates all = take 75 all"
    unfolding finalCandidates_def mainCandidates_def shadowCandidates_def Let_def a b by simp
  then show ?thesis using False by simp
qed

lemma filter_take_same: "filter P (take n (filter P xs)) = take n (filter P xs)"
  by (auto simp: filter_id_conv dest: in_set_takeD)

lemma filter_take_other: "filter P (take n (filter (\<lambda>x. \<not> P x) xs)) = []"
  by (auto simp: filter_empty_conv dest: in_set_takeD)

lemma final_main_count:
  "length (filter (\<lambda>c. snd c = None) (finalCandidates all))
     \<le> (if (\<exists>c \<in> set all. snd c \<noteq> None) then 50 else 75)"
proof (cases "\<exists>c \<in> set all. snd c \<noteq> None")
  case True
  have "filter (\<lambda>c. snd c = None) (finalCandidates all) = take 50 (filter (\<lambda>c. snd c = None) all)"
    using True filter_take_same[of "\<lambda>c. snd c = None" 50 all]
      filter_take_other[of "\<lambda>c. snd c = None" 25 all]
    by (simp add: final_by_host)
  then show ?thesis using True by simp
next
  case False
  have "length (filter (\<lambda>c. snd c = None) (take 75 all)) \<le> length (take 75 all)"
    by (rule length_filter_le)
  then show ?thesis using False by (simp add: final_by_host)
qed

lemma final_shadow_count:
  "length (filter (\<lambda>c. snd c \<noteq> None) (finalCandidates all)) \<le> 25"
proof (cases "\<exists>c \<in> set all. snd c \<noteq> None")
  case True
  have "filter (\<lambda>c. snd c \<noteq> None) (take 50 (filter (\<lambda>c. \<not> snd c \<noteq> None) all)) = []"
    by (rule filter_take_other)
  then have "filter (\<lambda>c. snd c \<noteq> None) (finalCandidates all)
               = take 25 (filter (\<lambda>c. snd c \<noteq> None) all)"
    using True filter_take_same[of "\<lambda>c. snd c \<noteq> None" 25 all]
    by (simp add: final_by_host)
  then show ?thesis by simp
next
  case False
  then have "filter (\<lambda>c. snd c \<noteq> None) (take 75 all) = []"
    by (auto simp: filter_empty_conv dest: in_set_takeD)
  then show ?thesis using False by (simp add: final_by_host)
qed

text \<open>
  Claim C7. A candidate is shadow-hosted when its host field is set and of the main document
  when it is not. When a shadow-hosted candidate exists, the kept candidates are the first
  50 candidates of the main document followed by the first 25 shadow-hosted ones; otherwise
  they are the first 75 candidates. So at most 50 (or 75) kept candidates are of the main
  document and at most 25 are shadow-hosted. Every kept candidate is emitted, in that
  order, the one at position \<open>i\<close> (from 0) with the ref \<open>i + 1\<close>; so the refs are 1, 2, 3 and
  so on, and there are at most 75 of them.
\<close>

theorem snapshot_capacity:
  "finalCandidates allCandidates =
     (if (\<exists>c \<in> set allCandidates. snd c \<noteq> None)
      then take 50 (filter (\<lambda>c. snd c = None) allCandidates)
           @ take 25 (filter (\<lambda>c. snd c \<noteq> None) allCandidates)
      else take 75 allCandidates) \<and>
   length (filter (\<lambda>c. snd c = None) (finalCandidates allCandidates))
     \<le> (if (\<exists>c \<in> set allCandidates. snd c \<noteq> None) then 50 else 75) \<and>
   length (filter (\<lambda>c. snd c \<noteq> None) (finalCandidates allCandidates)) \<le> 25 \<and>
   interactiveElements describe allCandidates = numbered describe 1 (finalCandidates allCandidates) \<and>
   length (interactiveElements describe allCandidates) = length (finalCandidates allCandidates) \<and>
   length (interactiveElements describe allCandidates) \<le> 75 \<and>
   (\<forall>i < length (finalCandidates allCandidates).
      interactiveElements describe allCandidates ! i
        = (describe (finalCandidates allCandidates ! i))\<lparr>ref := int i + 1\<rparr>) \<and>
   map ref (interactiveElements describe allCandidates)
     = map int [1..<Suc (length (interactiveElements describe allCandidates))]"
proof -
  let ?f = "finalCandidates allCandidates"
  have "take (nat (76 - 1)) ?f = ?f" using length_final[of allCandidates] by simp
  then have 2: "interactiveElements describe allCandidates = numbered describe 1 ?f"
    using emit_loop_eq[of 1 describe ?f "[]"] by (simp add: interactiveElements_def)
  have 3: "length (interactiveElements describe allCandidates) = length ?f"
    by (simp add: 2 length_numbered)
  have 4: "length (interactiveElements describe allCandidates) \<le> 75"
    using length_final[of allCandidates] by (simp add: 3)
  have 5: "\<forall>i < length ?f.
      interactiveElements describe allCandidates ! i = (describe (?f ! i))\<lparr>ref := int i + 1\<rparr>"
    by (simp add: 2 numbered_nth add.commute)
  have "map (\<lambda>i. 1 + int i) [0..<length ?f] = map int [1..<Suc (length ?f)]"
    by (simp add: map_Suc_upt[symmetric] comp_def del: upt_Suc)
  then have 6: "map ref (interactiveElements describe allCandidates)
     = map int [1..<Suc (length (interactiveElements describe allCandidates))]"
    by (simp add: 2 numbered_refs length_numbered del: upt_Suc)
  show ?thesis
    by (intro conjI)
       (rule final_by_host final_main_count final_shadow_count 2 3 4 5 6)+
qed

theorem snapshot_capacity_witness:
  "(\<exists>c \<in> set example_candidates. snd c \<noteq> None) \<and>
   finalCandidates example_candidates =
     map (\<lambda>i. (i, None)) [0..<30] @ map (\<lambda>i. (i, None)) [60..<80]
       @ map (\<lambda>i. (i, Some 0)) [30..<55] \<and>
   length (interactiveElements example_describe example_candidates) = 75 \<and>
   (49 :: nat) < length (finalCandidates example_candidates) \<and>
   interactiveElements example_describe example_candidates ! 49 = example_ref 50 ''button'' \<and>
   (50 :: nat) < length (finalCandidates example_candidates) \<and>
   interactiveElements example_describe example_candidates ! 50
     = example_ref 51 ''#host>>>button'' \<and>
   (74 :: nat) < length (finalCandidates example_candidates) \<and>
   interactiveElements example_describe example_candidates ! 74
     = example_ref 75 ''#host>>>button'' \<and>
   map ref (interactiveElements example_describe example_candidates) = map int [1..<76] \<and>
   \<not> (\<exists>c \<in> set example_main_only. snd c \<noteq> None) \<and>
   finalCandidates example_main_only = map (\<lambda>i. (i, None)) [0..<75]"
proof -
  note T = snapshot_capacity [of example_candidates example_describe]
  note U = snapshot_capacity [of example_main_only example_describe]
  have sh: "\<exists>c \<in> set example_candidates. snd c \<noteq> None"
    by (rule bexI[of _ "(30, Some 0)"]) (simp_all add: example_candidates_def)
  have nsh: "\<not> (\<exists>c \<in> set example_main_only. snd c \<noteq> None)"
    by (auto simp: example_main_only_def)
  have fm: "filter (\<lambda>c. snd c = None) example_candidates
              = map (\<lambda>i. (i, None)) [0..<30] @ map (\<lambda>i. (i, None)) [60..<90]"
    by (simp add: example_candidates_def filter_map comp_def)
  have fs: "filter (\<lambda>c. snd c \<noteq> None) example_candidates = map (\<lambda>i. (i, Some 0)) [30..<60]"
    by (simp add: example_candidates_def filter_map comp_def)
  have F: "finalCandidates example_candidates =
     map (\<lambda>i. (i, None)) [0..<30] @ map (\<lambda>i. (i, None)) [60..<80]
       @ map (\<lambda>i. (i, Some 0)) [30..<55]"
    using T [THEN conjunct1, unfolded fm fs] sh by (simp add: take_map del: upt_Suc)
  have G: "finalCandidates example_main_only = map (\<lambda>i. (i, None)) [0..<75]"
    using U [THEN conjunct1] nsh by (simp add: example_main_only_def take_map del: upt_Suc)
  have L: "length (finalCandidates example_candidates) = 75" by (simp add: F)
  have n: "length (interactiveElements example_describe example_candidates) = 75"
    using T [THEN conjunct2, THEN conjunct2, THEN conjunct2, THEN conjunct2, THEN conjunct1]
    by (simp add: L)
  note N = T [THEN conjunct2, THEN conjunct2, THEN conjunct2, THEN conjunct2, THEN conjunct2,
              THEN conjunct2, THEN conjunct1, unfolded L]
  have i49: "(49 :: nat) < 75" and i50: "(50 :: nat) < 75" and i74: "(74 :: nat) < 75"
    by simp_all
  have e49: "interactiveElements example_describe example_candidates ! 49
               = example_ref 50 ''button''"
    using N [THEN spec, of 49, THEN mp, OF i49]
    by (simp add: F nth_append example_describe_def example_ref_def del: upt_Suc)
  have e50: "interactiveElements example_describe example_candidates ! 50
               = example_ref 51 ''#host>>>button''"
    using N [THEN spec, of 50, THEN mp, OF i50]
    by (simp add: F nth_append example_describe_def example_ref_def del: upt_Suc)
  have e74: "interactiveElements example_describe example_candidates ! 74
               = example_ref 75 ''#host>>>button''"
    using N [THEN spec, of 74, THEN mp, OF i74]
    by (simp add: F nth_append example_describe_def example_ref_def del: upt_Suc)
  have r: "map ref (interactiveElements example_describe example_candidates) = map int [1..<76]"
    using T [THEN conjunct2, THEN conjunct2, THEN conjunct2, THEN conjunct2, THEN conjunct2,
              THEN conjunct2, THEN conjunct2]
    by (simp only: n) simp
  have l49: "(49 :: nat) < length (finalCandidates example_candidates)"
    and l50: "(50 :: nat) < length (finalCandidates example_candidates)"
    and l74: "(74 :: nat) < length (finalCandidates example_candidates)"
    by (simp_all only: L i49 i50 i74)
  show ?thesis
    by (intro conjI) (rule sh F n l49 e49 l50 e50 l74 e74 r nsh G)+
qed
section \<open>Reconnection: proofs\<close>

lemma scheduleReconnect_guard: "reconnecting (daemon w) \<Longrightarrow> scheduleReconnect w = w"
  by (simp add: scheduleReconnect_def)

lemma world_inv_initial: "world_inv initial_world"
  by (simp add: world_inv_def initial_world_def initial_state_def)

lemma world_inv_step:
  assumes "world_inv w" "step e w = Some w'"
  shows "world_inv w'"
proof (cases e)
  case (Boot outcome)
  with assms show ?thesis
    by (cases outcome)
       (auto simp: step_def boot_def world_inv_def scheduleReconnect_def connectCDP_def Let_def
             split: if_splits)
next
  case Disconnect
  with assms have l: "live w > 0" by (simp add: step_def split: if_splits)
  with assms(1) have "length (loops w) = 0" unfolding world_inv_def by linarith
  then have "loops w = []" by simp
  with Disconnect assms l show ?thesis
    by (auto simp: step_def on_disconnect_def world_inv_def scheduleReconnect_def split: if_splits)
next
  case (TimerFires k)
  with assms show ?thesis
    by (auto simp: step_def world_inv_def split: if_splits)
next
  case (AttemptEnds k outcome)
  with assms show ?thesis
    by (cases outcome)
       (auto simp: step_def attempt_ends_def world_inv_def connectCDP_def Let_def
             split: if_splits)
qed

lemma reachable_inv: "reachable w \<Longrightarrow> world_inv w"
  by (induction rule: reachable.induct) (auto intro: world_inv_initial world_inv_step)

lemma backoff_Suc: "min (backoff i * 2) maxDelay = backoff (Suc i)"
  by (simp add: backoff_def maxDelay_def)


lemma failed_attempts_Cons:
  "failed_attempts (outcome # os) = [TimerFires 0, AttemptEnds 0 outcome] @ failed_attempts os"
  by (simp add: failed_attempts_def)

lemma run_append:
  "run (xs @ ys) w = (case run xs w of None \<Rightarrow> None | Some w1 \<Rightarrow> run ys w1)"
  by (induction xs arbitrary: w) (simp_all split: option.splits)

lemma one_failed_attempt:
  assumes "loops w = [(Waiting, d)]" "outcome \<noteq> Connected"
  shows "\<exists>w1. run [TimerFires 0, AttemptEnds 0 outcome] w = Some w1 \<and>
           loops w1 = [(Waiting, min (d * 2) maxDelay)] \<and>
           scheduled w1 = scheduled w @ [min (d * 2) maxDelay] \<and>
           live w1 = live w"
  using assms
  by (cases outcome) (simp_all add: step_def attempt_ends_def Let_def)

lemma run_failed_attempts:
  assumes "loops w = [(Waiting, backoff i)]" "\<forall>outcome \<in> set os. outcome \<noteq> Connected"
  shows "\<exists>w'. run (failed_attempts os) w = Some w' \<and>
           loops w' = [(Waiting, backoff (i + length os))] \<and>
           scheduled w' = scheduled w @ map backoff [Suc i..<Suc (i + length os)] \<and>
           live w' = live w"
  using assms
proof (induction os arbitrary: w i)
  case Nil
  then show ?case by (simp add: failed_attempts_def)
next
  case (Cons outcome os)
  from Cons.prems have nc: "outcome \<noteq> Connected" by simp
  have "\<exists>w1. run [TimerFires 0, AttemptEnds 0 outcome] w = Some w1 \<and>
           loops w1 = [(Waiting, min (backoff i * 2) maxDelay)] \<and>
           scheduled w1 = scheduled w @ [min (backoff i * 2) maxDelay] \<and>
           live w1 = live w"
    using Cons.prems(1) nc by (rule one_failed_attempt)
  then obtain w1 where w1: "run [TimerFires 0, AttemptEnds 0 outcome] w = Some w1"
      "loops w1 = [(Waiting, backoff (Suc i))]"
      "scheduled w1 = scheduled w @ [backoff (Suc i)]" "live w1 = live w"
    by (auto simp: backoff_Suc)
  from Cons.prems have rest: "\<forall>outcome \<in> set os. outcome \<noteq> Connected" by simp
  from Cons.IH[OF w1(2) rest] obtain w' where w': "run (failed_attempts os) w1 = Some w'"
      "loops w' = [(Waiting, backoff (Suc i + length os))]"
      "scheduled w' = scheduled w1 @ map backoff [Suc (Suc i)..<Suc (Suc i + length os)]"
      "live w' = live w1"
    by blast
  have r: "run (failed_attempts (outcome # os)) w = Some w'"
    using w1(1) w'(1) by (simp only: failed_attempts_Cons run_append option.case)
  have "[Suc i..<Suc (i + length (outcome # os))]
          = Suc i # [Suc (Suc i)..<Suc (Suc i + length os)]"
    by (simp add: upt_conv_Cons del: upt_Suc)
  then have s: "scheduled w' = scheduled w @ map backoff [Suc i..<Suc (i + length (outcome # os))]"
    using w'(3) w1(3) by (simp del: upt_Suc)
  from r s w'(2) w'(4) w1(4) show ?case by (simp del: upt_Suc)
qed

lemma disconnect_starts_loop:
  assumes "world_inv w" "live w > 0"
  shows "\<exists>w'. step Disconnect w = Some w' \<and> loops w' = [(Waiting, backoff 0)] \<and>
           scheduled w' = scheduled w @ [backoff 0] \<and> reconnecting (daemon w') \<and>
           live w' = live w - 1"
proof -
  from assms have "length (loops w) = 0" unfolding world_inv_def by linarith
  then have "loops w = []" by simp
  moreover from assms have "\<not> reconnecting (daemon w)" by (simp add: world_inv_def)
  ultimately show ?thesis using assms(2)
    by (simp add: step_def on_disconnect_def scheduleReconnect_def backoff_def maxDelay_def)
qed


lemma backoff_values:
  "backoff 0 = 1000" "backoff 1 = 2000" "backoff 2 = 4000" "backoff 3 = 8000"
  by (simp_all add: backoff_def maxDelay_def)

lemma backoff_capped: "4 \<le> i \<Longrightarrow> backoff i = 10000"
proof -
  assume "4 \<le> i"
  then have "(2::nat) ^ 4 \<le> 2 ^ i" by (intro power_increasing) simp_all
  then have "(10000::nat) \<le> 1000 * 2 ^ i" by simp
  then show ?thesis by (simp add: backoff_def maxDelay_def)
qed

lemma connected_attempt:
  assumes "world_inv w" "loops w = [(Attempting, d)]"
  shows "\<exists>w1 w2. step (AttemptEnds 0 Connected) w = Some w1 \<and>
           \<not> reconnecting (daemon w1) \<and> loops w1 = [] \<and>
           step Disconnect w1 = Some w2 \<and> loops w2 = [(Waiting, 1000)]"
proof -
  let ?w1 = "attempt_ends 0 Connected w"
  have s1: "step (AttemptEnds 0 Connected) w = Some ?w1" using assms(2) by (simp add: step_def)
  have a: "\<not> reconnecting (daemon ?w1)" "loops ?w1 = []" "live ?w1 > 0"
    using assms(2) by (simp_all add: attempt_ends_def connectCDP_def Let_def)
  have "world_inv ?w1" using assms(1) s1 by (rule world_inv_step)
  from disconnect_starts_loop[OF this a(3)] obtain w2 where
    "step Disconnect ?w1 = Some w2" "loops w2 = [(Waiting, backoff 0)]" by blast
  with s1 a show ?thesis by (auto simp: backoff_values)
qed

lemma disconnect_then_failures:
  assumes inv: "world_inv w" and l: "live w > 0" and o: "\<forall>outcome \<in> set os. outcome \<noteq> Connected"
  shows "\<exists>w'. run (Disconnect # failed_attempts os) w = Some w' \<and>
              scheduled w' = scheduled w @ map backoff [0..<Suc (length os)] \<and>
              loops w' = [(Waiting, backoff (length os))]"
proof -
  from disconnect_starts_loop[OF inv l] obtain w0 where w0:
      "step Disconnect w = Some w0" "loops w0 = [(Waiting, backoff 0)]"
      "scheduled w0 = scheduled w @ [backoff 0]"
    by (elim exE conjE)
  from run_failed_attempts[OF w0(2) o] obtain w' where w':
      "run (failed_attempts os) w0 = Some w'" "loops w' = [(Waiting, backoff (0 + length os))]"
      "scheduled w' = scheduled w0 @ map backoff [Suc 0..<Suc (0 + length os)]"
    by (elim exE conjE)
  have u: "[0..<Suc (length os)] = 0 # [Suc 0..<Suc (length os)]"
    by (rule upt_conv_Cons) simp
  have s: "scheduled w' = scheduled w @ map backoff [0..<Suc (length os)]"
    unfolding u using w'(3) w0(3) by simp
  have r: "run (Disconnect # failed_attempts os) w = Some w'"
    using w0(1) w'(1) by simp
  have lp: "loops w' = [(Waiting, backoff (length os))]" using w'(2) by simp
  from r s lp show ?thesis by (intro exI conjI)
qed


text \<open>
  Claim C9. After a disconnect, the timers of the reconnection loop are set to 1000 ms, then
  after each failed attempt to the doubled delay capped at 10000 ms, so the waits before three
  failing attempts are 1000, 2000 and 4000 ms, followed by 8000 and then 10000 ms for good.
  No reachable world has two reconnection loops in flight; a call of \<open>scheduleReconnect\<close>
  while \<open>reconnecting\<close> is set changes nothing. A successful connect clears \<open>reconnecting\<close>
  and ends the loop, and the loop of the next disconnect starts again at 1000 ms.
\<close>

theorem reconnect_backoff:
  assumes "reachable w"
  shows
    "length (loops w) \<le> 1 \<and>
     (reconnecting (daemon w) \<longrightarrow> scheduleReconnect w = w) \<and>
     (live w > 0 \<and> (\<forall>outcome \<in> set os. outcome \<noteq> Connected) \<longrightarrow>
        (\<exists>w'. run (Disconnect # failed_attempts os) w = Some w' \<and>
              scheduled w' = scheduled w @ map backoff [0..<Suc (length os)] \<and>
              loops w' = [(Waiting, backoff (length os))])) \<and>
     backoff 0 = 1000 \<and> backoff 1 = 2000 \<and> backoff 2 = 4000 \<and> backoff 3 = 8000 \<and>
     (\<forall>i \<ge> 4. backoff i = 10000) \<and>
     \<not> reconnecting (connectCDP Connected st) \<and>
     (loops w = [(Attempting, d)] \<longrightarrow>
        (\<exists>w1 w2. step (AttemptEnds 0 Connected) w = Some w1 \<and>
           \<not> reconnecting (daemon w1) \<and> loops w1 = [] \<and>
           step Disconnect w1 = Some w2 \<and> loops w2 = [(Waiting, 1000)]))"
proof -
  from assms have inv: "world_inv w" by (rule reachable_inv)
  then have 1: "length (loops w) \<le> 1" by (simp add: world_inv_def)
  have 2: "reconnecting (daemon w) \<longrightarrow> scheduleReconnect w = w"
    by (simp add: scheduleReconnect_guard)
  have 3: "live w > 0 \<and> (\<forall>outcome \<in> set os. outcome \<noteq> Connected) \<longrightarrow>
        (\<exists>w'. run (Disconnect # failed_attempts os) w = Some w' \<and>
              scheduled w' = scheduled w @ map backoff [0..<Suc (length os)] \<and>
              loops w' = [(Waiting, backoff (length os))])"
  proof
    assume a: "live w > 0 \<and> (\<forall>outcome \<in> set os. outcome \<noteq> Connected)"
    then have l: "live w > 0" and o: "\<forall>outcome \<in> set os. outcome \<noteq> Connected"
      by (rule conjunct1, rule conjunct2)
    from inv l o show "\<exists>w'. run (Disconnect # failed_attempts os) w = Some w' \<and>
              scheduled w' = scheduled w @ map backoff [0..<Suc (length os)] \<and>
              loops w' = [(Waiting, backoff (length os))]"
      by (rule disconnect_then_failures)
  qed
  have 4: "\<forall>i \<ge> 4. backoff i = 10000" by (simp add: backoff_capped)
  have 5: "\<not> reconnecting (connectCDP Connected st)" by (simp add: connectCDP_def)
  have 6: "loops w = [(Attempting, d)] \<longrightarrow>
        (\<exists>w1 w2. step (AttemptEnds 0 Connected) w = Some w1 \<and>
           \<not> reconnecting (daemon w1) \<and> loops w1 = [] \<and>
           step Disconnect w1 = Some w2 \<and> loops w2 = [(Waiting, 1000)])"
  proof
    assume "loops w = [(Attempting, d)]"
    with inv show "\<exists>w1 w2. step (AttemptEnds 0 Connected) w = Some w1 \<and>
           \<not> reconnecting (daemon w1) \<and> loops w1 = [] \<and>
           step Disconnect w1 = Some w2 \<and> loops w2 = [(Waiting, 1000)]"
      by (rule connected_attempt)
  qed
  show ?thesis
    by (intro conjI) (rule 1 2 3 4 5 6 backoff_values)+
qed


theorem reconnect_backoff_witness:
  "reachable (boot Connected initial_world) \<and>
   map_option scheduled
     (run (Disconnect # failed_attempts [FailedBeforeSession, FailedAfterSession, FailedBeforeSession])
        (boot Connected initial_world))
     = Some [1000, 2000, 4000, 8000] \<and>
   run [Boot FailedBeforeSession, TimerFires 0] initial_world
     = Some (initial_world\<lparr>daemon := initial_state\<lparr>reconnecting := True\<rparr>,
          loops := [(Attempting, 1000)], scheduled := [1000], booted := True\<rparr>) \<and>
   scheduleReconnect (initial_world\<lparr>daemon := initial_state\<lparr>reconnecting := True\<rparr>,
          loops := [(Attempting, 1000)], scheduled := [1000], booted := True\<rparr>)
     = initial_world\<lparr>daemon := initial_state\<lparr>reconnecting := True\<rparr>,
          loops := [(Attempting, 1000)], scheduled := [1000], booted := True\<rparr> \<and>
   map_option loops
     (run [AttemptEnds 0 Connected, Disconnect]
        (initial_world\<lparr>daemon := initial_state\<lparr>reconnecting := True\<rparr>,
          loops := [(Attempting, 1000)], scheduled := [1000], booted := True\<rparr>))
     = Some [(Waiting, 1000)] \<and>
   backoff 4 = 10000"
proof -
  let ?w = "boot Connected initial_world"
  let ?os = "[FailedBeforeSession, FailedAfterSession, FailedBeforeSession]"
  have "step (Boot Connected) initial_world = Some ?w"
    by (simp add: step_def initial_world_def)
  with reach_start have r: "reachable ?w" by (rule reach_step)
  have l: "live ?w > 0" by (simp add: boot_def initial_world_def Let_def)
  have s: "scheduled ?w = []" by (simp add: boot_def initial_world_def Let_def)
  have o: "\<forall>outcome \<in> set ?os. outcome \<noteq> Connected" by simp
  from l o have lo: "live ?w > 0 \<and> (\<forall>outcome \<in> set ?os. outcome \<noteq> Connected)"
    by (rule conjI)
  note T = reconnect_backoff [OF r, of ?os]
  note T3 = T [THEN conjunct2, THEN conjunct2]
  note T4 = T3 [THEN conjunct2]
  note T5 = T4 [THEN conjunct2]
  note T6 = T5 [THEN conjunct2]
  have b0: "backoff 0 = 1000" by (rule T4 [THEN conjunct1])
  have b1: "backoff (Suc 0) = 2000" using T5 [THEN conjunct1] by simp
  have b2: "backoff (Suc (Suc 0)) = 4000" using T6 [THEN conjunct1] by (simp add: numeral_2_eq_2)
  have b3: "backoff (Suc (Suc (Suc 0))) = 8000"
    using T6 [THEN conjunct2, THEN conjunct1] by (simp add: numeral_3_eq_3)
  have b4: "backoff 4 = 10000"
    using T6 [THEN conjunct2, THEN conjunct2, THEN conjunct1] by simp
  from T3 [THEN conjunct1, THEN mp, OF lo] obtain w' where w':
    "run (Disconnect # failed_attempts ?os) ?w = Some w'"
    "scheduled w' = scheduled ?w @ map backoff [0..<Suc (length ?os)]"
    by (elim exE conjE)
  have "[0..<Suc (length ?os)] = [0, Suc 0, Suc (Suc 0), Suc (Suc (Suc 0))]"
    by (simp add: upt_conv_Cons del: upt_Suc)
  then have "map backoff [0..<Suc (length ?os)] = [1000, 2000, 4000, 8000]"
    by (simp only: list.map b0 b1 b2 b3)
  with w'(2) s have "scheduled w' = [1000, 2000, 4000, 8000]" by simp
  with w'(1) have first: "map_option scheduled (run (Disconnect # failed_attempts ?os) ?w)
      = Some [1000, 2000, 4000, 8000]"
    by (simp only: option.map)
  let ?v = "initial_world\<lparr>daemon := initial_state\<lparr>reconnecting := True\<rparr>,
          loops := [(Attempting, 1000)], scheduled := [1000], booted := True\<rparr>"
  have rv: "run [Boot FailedBeforeSession, TimerFires 0] initial_world = Some ?v"
    by (simp add: step_def boot_def scheduleReconnect_def connectCDP_def initial_world_def
        initial_state_def Let_def)
  have s1: "step (Boot FailedBeforeSession) initial_world = Some (boot FailedBeforeSession initial_world)"
    by (simp add: step_def initial_world_def)
  have s2: "step (TimerFires 0) (boot FailedBeforeSession initial_world) = Some ?v"
    by (simp add: step_def boot_def scheduleReconnect_def connectCDP_def initial_world_def
        initial_state_def Let_def)
  have reach_v: "reachable ?v"
    by (rule reach_step [OF reach_step [OF reach_start s1] s2])
  note V = reconnect_backoff [OF reach_v, of "[]" initial_state 1000]
  have rec: "reconnecting (daemon ?v)" by simp
  have guard: "scheduleReconnect ?v = ?v"
    by (rule V [THEN conjunct2, THEN conjunct1, THEN mp, OF rec])
  note V6 = V [THEN conjunct2, THEN conjunct2, THEN conjunct2, THEN conjunct2, THEN conjunct2,
      THEN conjunct2, THEN conjunct2, THEN conjunct2, THEN conjunct2]
  have lv: "loops ?v = [(Attempting, 1000)]" by simp
  from V6 [THEN mp, OF lv] obtain w1 w2 where
    "step (AttemptEnds 0 Connected) ?v = Some w1" "step Disconnect w1 = Some w2"
    "loops w2 = [(Waiting, 1000)]"
    by (elim exE conjE)
  then have again: "map_option loops (run [AttemptEnds 0 Connected, Disconnect] ?v)
      = Some [(Waiting, 1000)]"
    by simp
  from r first rv guard again b4 show ?thesis by (intro conjI)
qed

section \<open>Selector synthesis: proofs\<close>



















end
